theory Spec2Isabelle
  imports Main "HOL-Library.Word"
begin

unbundle bit_operations_syntax

section \<open>Bytes, slices and failures\<close>

text \<open>
  A shallow embedding of the Go package \<open>ksuid\<close> (cuvva/ksuid-go): the identifier value and
  its text form (\<open>id.go\<close>), the base-62 decoder (\<open>base62.go\<close>), the instance identities
  (\<open>instance_id.go\<close>), the generator (\<open>node.go\<close>) and the identifier set (\<open>set.go\<close>).

  Go's \<open>byte\<close> is an 8-bit word. Text (\<open>string\<close>, and a \<open>[]byte\<close> that holds text) is a
  list of 8-bit characters; binary buffers are lists of bytes. Every error return and every
  run-time panic of the source is a value of the type \<open>error\<close>.
\<close>

type_synonym byte = "8 word"

datatype error =
    ParseError string
  | UnknownNodeID byte
  | ExpectedBytes nat nat
  | PanicNilInterface
  | PanicIndexOutOfRange

text \<open>
  \<open>ParseError msg\<close> is \<open>&ParseError{msg}\<close>; \<open>UnknownNodeID c\<close> is
  \<open>fmt.Errorf("unknown node id '%c'", c)\<close>; \<open>ExpectedBytes n m\<close> is
  \<open>fmt.Errorf("expected %d bytes, got %d", n, m)\<close>; the two panics are Go's run-time
  errors for a method call on a nil interface and for an index out of range.
\<close>

text \<open>Go's \<open>copy(dst[off:], src)\<close>, for \<open>off \<le> len(dst)\<close>: it copies
  \<open>min(len(dst) - off, len(src))\<close> elements and never changes the length of \<open>dst\<close>.\<close>

definition copy_at :: "'a list \<Rightarrow> nat \<Rightarrow> 'a list \<Rightarrow> 'a list" where
  "copy_at dst off src = take off dst @ take (length dst - off) src @ drop (off + length src) dst"

text \<open>\<open>encoding/binary\<close>, big endian. \<open>be64 v\<close> are the eight bytes \<open>PutUint64\<close> writes.\<close>

definition be16 :: "16 word \<Rightarrow> byte list" where
  "be16 v = [ucast (drop_bit 8 v), ucast v]"

definition be32 :: "32 word \<Rightarrow> byte list" where
  "be32 v = [ucast (drop_bit 24 v), ucast (drop_bit 16 v), ucast (drop_bit 8 v), ucast v]"

definition be64 :: "64 word \<Rightarrow> byte list" where
  "be64 v = [ucast (drop_bit 56 v), ucast (drop_bit 48 v), ucast (drop_bit 40 v),
             ucast (drop_bit 32 v), ucast (drop_bit 24 v), ucast (drop_bit 16 v),
             ucast (drop_bit 8 v), ucast v]"

definition Uint16 :: "byte list \<Rightarrow> 16 word" where
  "Uint16 b = ucast (b ! 1) OR push_bit 8 (ucast (b ! 0))"

definition Uint32 :: "byte list \<Rightarrow> 32 word" where
  "Uint32 b = ucast (b ! 3) OR push_bit 8 (ucast (b ! 2)) OR push_bit 16 (ucast (b ! 1))
                OR push_bit 24 (ucast (b ! 0))"

definition Uint64 :: "byte list \<Rightarrow> 64 word" where
  "Uint64 b = ucast (b ! 7) OR push_bit 8 (ucast (b ! 6)) OR push_bit 16 (ucast (b ! 5))
                OR push_bit 24 (ucast (b ! 4)) OR push_bit 32 (ucast (b ! 3))
                OR push_bit 40 (ucast (b ! 2)) OR push_bit 48 (ucast (b ! 1))
                OR push_bit 56 (ucast (b ! 0))"

text \<open>The readers are only applied to slices of the 21-byte payload that are long enough
  (\<open>dst[:8]\<close>, \<open>b[6:]\<close> of 8 bytes, \<open>dst[17:]\<close>), so their bounds checks never fire.\<close>

section \<open>Time\<close>

text \<open>
  A \<open>time.Time\<close> is an instant (\<open>sec\<close> seconds since the Unix epoch, \<open>nsec\<close> nanoseconds
  into that second) and a location. \<open>time.Now()\<close> and \<open>time.Unix\<close> give local time,
  \<open>UTC()\<close> sets the location to UTC, the zero \<open>Time\<close> is January 1, year 1, 00:00 UTC.
  \<open>Unix()\<close> is an \<open>int64\<close>, and \<open>uint64(t.Unix())\<close> keeps its 64 bits.
\<close>

datatype Location = UTC | Local

record Time =
  sec :: int
  nsec :: nat
  loc :: Location

definition zeroTime :: Time where
  "zeroTime = \<lparr>sec = - 62135596800, nsec = 0, loc = UTC\<rparr>"

definition time_Unix :: "64 word \<Rightarrow> Time" where
  "time_Unix s = \<lparr>sec = sint s, nsec = 0, loc = Local\<rparr>"

definition Time_UTC :: "Time \<Rightarrow> Time" where
  "Time_UTC t = t\<lparr>loc := UTC\<rparr>"

definition Time_Unix :: "Time \<Rightarrow> 64 word" where
  "Time_Unix t = word_of_int (sec t)"

definition Time_Equal :: "Time \<Rightarrow> Time \<Rightarrow> bool" where
  "Time_Equal t u \<longleftrightarrow> sec t = sec u \<and> nsec t = nsec u"

text \<open>\<open>t.Sub(u)\<close> is a \<open>Duration\<close>, an \<open>int64\<close> count of nanoseconds; it saturates at the
  largest and the smallest \<open>int64\<close>.\<close>

definition Time_Sub :: "Time \<Rightarrow> Time \<Rightarrow> int" where
  "Time_Sub t u =
     (let d = (sec t - sec u) * 1000000000 + (int (nsec t) - int (nsec u))
      in if d > 9223372036854775807 then 9223372036854775807
         else if d < - 9223372036854775808 then - 9223372036854775808
         else d)"

text \<open>The instant of a \<open>Time\<close> in nanoseconds since the Unix epoch.\<close>

definition instant :: "Time \<Rightarrow> int" where
  "instant t = sec t * 1000000000 + int (nsec t)"

definition Second :: int where
  "Second = 1000000000"

section \<open>Instance identities\<close>

text \<open>
  The interface \<open>InstanceID\<close> has the three implementations of \<open>instance_id.go\<close>.
  A value of \<open>[8]byte\<close> is a list of bytes; \<open>arr8 src\<close> is
  \<open>var b [8]byte; copy(b[:], src)\<close>, the identity on a list of length 8.
\<close>

datatype InstanceID =
    HardwareID (MachineID: "byte list") (ProcessID: "16 word")
  | DockerID (ContainerID: "byte list")
  | RandomID (Random: "byte list")

definition arr8 :: "byte list \<Rightarrow> byte list" where
  "arr8 src = copy_at (replicate 8 0) 0 src"

fun Scheme :: "InstanceID \<Rightarrow> byte" where
  "Scheme (HardwareID m p) = 0x48"
| "Scheme (DockerID c) = 0x44"
| "Scheme (RandomID r) = 0x52"

fun InstanceID_Bytes :: "InstanceID \<Rightarrow> byte list" where
  "InstanceID_Bytes (HardwareID m p) = copy_at (arr8 m) 6 (be16 p)"
| "InstanceID_Bytes (DockerID c) = arr8 c"
| "InstanceID_Bytes (RandomID r) = arr8 r"

definition ParseHardwareID :: "byte list \<Rightarrow> InstanceID option \<times> error option" where
  "ParseHardwareID b =
     (if length b \<noteq> 8 then (None, Some (ExpectedBytes 8 (length b)))
      else (Some (HardwareID (take 6 b) (Uint16 (drop 6 b))), None))"

definition ParseDockerID :: "byte list \<Rightarrow> InstanceID option \<times> error option" where
  "ParseDockerID b =
     (if length b \<noteq> 8 then (None, Some (ExpectedBytes 8 (length b)))
      else (Some (DockerID b), None))"

definition ParseRandomID :: "byte list \<Rightarrow> InstanceID option \<times> error option" where
  "ParseRandomID b =
     (if length b \<noteq> 8 then (None, Some (ExpectedBytes 8 (length b)))
      else (Some (RandomID (arr8 b)), None))"

definition ParseInstanceID :: "byte list \<Rightarrow> InstanceID option \<times> error option" where
  "ParseInstanceID b =
     (if length b \<noteq> 9 then (None, Some (ExpectedBytes 9 (length b)))
      else if b ! 0 = 0x48 then ParseHardwareID (drop 1 b)
      else if b ! 0 = 0x44 then ParseDockerID (drop 1 b)
      else if b ! 0 = 0x52 then ParseRandomID (drop 1 b)
      else (None, Some (UnknownNodeID (b ! 0))))"

section \<open>The identifier value\<close>

text \<open>The field \<open>InstanceID\<close> holds an interface value: \<open>None\<close> is the nil interface.\<close>

record ID =
  Environment :: string
  Resource :: string
  Timestamp :: Time
  InstanceID :: "InstanceID option"
  SequenceID :: "32 word"

definition zeroID :: ID where
  "zeroID = \<lparr>Environment = [], Resource = [], Timestamp = zeroTime, InstanceID = None,
             SequenceID = 0\<rparr>"

definition Production :: string where
  "Production = ''prod''"

definition decodedLen :: nat where
  "decodedLen = 21"

definition encodedLen :: nat where
  "encodedLen = 29"

subsection \<open>The base-62 decoder\<close>

definition base62Characters :: string where
  "base62Characters = ''0123456789ABCDEFGHIJKLMNOPQRSTUVWXYZabcdefghijklmnopqrstuvwxyz''"

definition offsetUppercase :: byte where
  "offsetUppercase = 10"

definition offsetLowercase :: byte where
  "offsetLowercase = 36"

definition base62Value :: "char \<Rightarrow> byte" where
  "base62Value c =
     (let digit = (of_char c :: byte)
      in if 0x30 \<le> digit \<and> digit \<le> 0x39 then digit - 0x30
         else if 0x41 \<le> digit \<and> digit \<le> 0x5A then offsetUppercase + (digit - 0x41)
         else offsetLowercase + (digit - 0x61))"

text \<open>
  The inner loop of \<open>fastDecodeBase62\<close>: one long division of the digits \<open>bp\<close> (base 62,
  most significant first) by \<open>dstBase = 2^32\<close>, in \<open>uint64\<close> arithmetic. \<open>quot\<close> is the
  slice \<open>quotient\<close> built so far and \<open>remainder\<close> the running remainder. The source builds the quotient
  in the array \<open>bq\<close>, which from the second pass on is also the array it reads \<open>bp\<close> from;
  it writes position \<open>len(quotient)\<close>, never beyond the position it has just read, so no
  digit is overwritten before it is read and the lists below carry the same values.
\<close>

definition srcBase :: "64 word" where
  "srcBase = 62"

definition dstBase :: "64 word" where
  "dstBase = 4294967296"

fun divide_pass :: "byte list \<Rightarrow> byte list \<Rightarrow> 64 word \<Rightarrow> byte list \<times> 64 word" where
  "divide_pass [] quot remainder = (quot, remainder)"
| "divide_pass (c # bp) quot remainder =
     (let v = ucast c + remainder * srcBase;
          digit = v div dstBase;
          remainder' = v mod dstBase
      in divide_pass bp
           (if length quot \<noteq> 0 \<or> digit \<noteq> 0 then quot @ [ucast digit] else quot)
           remainder')"

text \<open>The outer loop: \<open>n\<close> is the write position in \<open>dst\<close>, lowered by 4 in each round.\<close>

function decode_loop :: "byte list \<Rightarrow> nat \<Rightarrow> byte list \<Rightarrow> error + (byte list \<times> nat)" where
  "decode_loop dst n bp =
     (if length bp > 0 then
        (case divide_pass bp [] 0 of
           (quot, remainder) \<Rightarrow>
             if n < 4 then Inl (ParseError ''output buffer too short'')
             else decode_loop
                    (dst[n - 4 := ucast (drop_bit 24 remainder),
                         n - 3 := ucast (drop_bit 16 remainder),
                         n - 2 := ucast (drop_bit 8 remainder),
                         n - 1 := ucast remainder])
                    (n - 4) quot)
      else Inr (dst, n))"
  by pat_completeness auto
termination
  by (relation "measure (\<lambda>(dst, n, bp). n)") auto

declare decode_loop.simps [simp del]

definition fastDecodeBase62 :: "byte list \<Rightarrow> string \<Rightarrow> error + byte list" where
  "fastDecodeBase62 dst src =
     (if length src < encodedLen then Inl PanicIndexOutOfRange
      else case decode_loop dst (length dst) (map base62Value (take encodedLen src)) of
             Inl e \<Rightarrow> Inl e
           | Inr (dst', n) \<Rightarrow> Inr (copy_at dst' 0 (replicate (min n decodedLen) 0)))"

text \<open>
  \<open>parts\<close> reads \<open>src[0]\<close> to \<open>src[28]\<close> by index, which panics on a shorter \<open>src\<close>;
  \<open>Parse\<close> only calls the decoder on 29 bytes. The last line is
  \<open>copy(dst[:n], zero[:])\<close> with \<open>zero\<close> of 21 bytes.
\<close>

subsection \<open>Parse\<close>

text \<open>\<open>bytes.IndexByte\<close> and \<open>bytes.LastIndexByte\<close>: the first and the last index of a
  byte, or \<open>-1\<close>.\<close>

fun IndexByte :: "string \<Rightarrow> char \<Rightarrow> int" where
  "IndexByte [] c = - 1"
| "IndexByte (x # xs) c =
     (if x = c then 0 else (let r = IndexByte xs c in if r < 0 then - 1 else r + 1))"

fun LastIndexByte :: "string \<Rightarrow> char \<Rightarrow> int" where
  "LastIndexByte [] c = - 1"
| "LastIndexByte (x # xs) c =
     (let r = LastIndexByte xs c in if r \<ge> 0 then r + 1 else if x = c then 0 else - 1)"

definition splitPrefixID :: "string \<Rightarrow> string \<times> string \<times> string" where
  "splitPrefixID s =
     (let i = LastIndexByte s (CHR ''_'')
      in if i < 0 then ([], [], s)
         else
           (let j = IndexByte (take (nat i) s) (CHR ''_'')
            in if j > - 1
               then (take (nat j) s, drop (nat j + 1) (take (nat i) s), drop (nat i + 1) s)
               else ([], take (nat i) s, drop (nat i + 1) s)))"

text \<open>
  \<open>Parse\<close> has the named results \<open>(id, err)\<close> and returns both on every path: on an error
  the identifier holds the fields assigned so far. After a failed \<open>ParseInstanceID\<close> the
  sequence is still assigned.
\<close>

definition Parse :: "string \<Rightarrow> ID \<times> error option" where
  "Parse src0 =
     (case splitPrefixID src0 of
        (environment, resource, src) \<Rightarrow>
          (let id1 = zeroID\<lparr>Environment := environment, Resource := resource\<rparr>;
               id2 = (if Environment id1 = [] then id1\<lparr>Environment := Production\<rparr> else id1)
           in if length src < encodedLen then (id2, Some (ParseError ''ksuid too short''))
              else if length src > encodedLen then (id2, Some (ParseError ''ksuid too long''))
              else
                (case fastDecodeBase62 (replicate decodedLen 0) src of
                   Inl (ParseError m) \<Rightarrow> (id2, Some (ParseError (''invalid base62: '' @ m)))
                 | Inl e \<Rightarrow> (id2, Some e)
                 | Inr dst \<Rightarrow>
                     (case ParseInstanceID (drop 8 (take 17 dst)) of
                        (iid, err) \<Rightarrow>
                          (id2\<lparr>Timestamp := Time_UTC (time_Unix (Uint64 (take 8 dst))),
                               InstanceID := iid,
                               SequenceID := Uint32 (drop 17 dst)\<rparr>, err)))))"

text \<open>The decoder only returns a \<open>ParseError\<close> to \<open>Parse\<close> (its input has 29 bytes), so the
  branch \<open>Inl e\<close> for another failure is never taken.\<close>

subsection \<open>Equality and the text form\<close>

definition Equal :: "ID \<Rightarrow> ID \<Rightarrow> bool" where
  "Equal a x =
     (case (InstanceID a, InstanceID x) of
        (Some i, Some j) \<Rightarrow>
          Environment a = Environment x \<and> Resource a = Resource x \<and>
          Scheme i = Scheme j \<and> InstanceID_Bytes i = InstanceID_Bytes j \<and>
          Time_Equal (Timestamp a) (Timestamp x) \<and> SequenceID a = SequenceID x
      | _ \<Rightarrow> False)"

definition prefixLen :: "ID \<Rightarrow> nat" where
  "prefixLen a =
     (if Resource a \<noteq> [] then
        length (Resource a) + 1 +
          (if Environment a \<noteq> [] \<and> Environment a \<noteq> Production
           then length (Environment a) + 1 else 0)
      else 0)"

text \<open>
  \<open>ID.Bytes\<close>. The base-62 encoder \<open>basex.Base62.Encode(y, x)\<close> belongs to another module
  (\<open>github.com/jamescun/basex\<close>) and is a parameter here: \<open>encode y x\<close> is the content of the
  buffer \<open>y\<close> when the call returns. \<open>payload\<close> is the 21-byte buffer \<open>x\<close> handed to it.
\<close>

definition payload :: "ID \<Rightarrow> InstanceID \<Rightarrow> byte list" where
  "payload a i =
     (let iid = InstanceID_Bytes i;
          x0 = replicate decodedLen 0;
          x1 = copy_at x0 0 (be64 (Time_Unix (Timestamp a)));
          x2 = x1[8 := Scheme i];
          x3 = copy_at x2 9 iid;
          x4 = copy_at x3 17 (be32 (SequenceID a))
      in x4)"

definition write_prefix :: "ID \<Rightarrow> string \<Rightarrow> string" where
  "write_prefix a dst =
     (if Resource a \<noteq> [] then
        (case (if Environment a \<noteq> [] \<and> Environment a \<noteq> Production
               then ((copy_at dst 0 (Environment a))[length (Environment a) := CHR ''_''],
                     length (Environment a) + 1)
               else (dst, 0)) of
           (dst', offset) \<Rightarrow>
             (copy_at dst' offset (Resource a))[offset + length (Resource a) := CHR ''_''])
      else dst)"

definition ID_Bytes :: "(string \<Rightarrow> byte list \<Rightarrow> string) \<Rightarrow> ID \<Rightarrow> error + string" where
  "ID_Bytes encode a =
     (let n = prefixLen a;
          dst = write_prefix a (replicate (n + encodedLen) (CHR 0x00))
      in case InstanceID a of
           None \<Rightarrow> Inl PanicNilInterface
         | Some i \<Rightarrow>
             (let x = payload a i;
                  y = encode (replicate encodedLen (CHR 0x00)) x;
                  dst2 = copy_at dst (n + 2) y;
                  dst3 = dst2[n := CHR ''0''];
                  dst4 = dst3[n + 1 := CHR ''0'']
              in Inr dst4))"

definition ID_String :: "(string \<Rightarrow> byte list \<Rightarrow> string) \<Rightarrow> ID \<Rightarrow> error + string" where
  "ID_String encode a = ID_Bytes encode a"

definition ID_Value :: "(string \<Rightarrow> byte list \<Rightarrow> string) \<Rightarrow> ID \<Rightarrow> error + (string \<times> error option)" where
  "ID_Value encode a =
     (case ID_Bytes encode a of Inl e \<Rightarrow> Inl e | Inr b \<Rightarrow> Inr (b, None))"

definition MarshalJSON :: "(string \<Rightarrow> byte list \<Rightarrow> string) \<Rightarrow> ID \<Rightarrow> error + (string \<times> error option)" where
  "MarshalJSON encode a =
     (case ID_Bytes encode a of
        Inl e \<Rightarrow> Inl e
      | Inr b \<Rightarrow>
          (let x = replicate (length b + 2) (CHR 0x00);
               x1 = x[0 := CHR 0x22];
               x2 = copy_at x1 1 b;
               x3 = x2[length x2 - 1 := CHR 0x22]
           in Inr (x3, None)))"

definition GetBSON :: "(string \<Rightarrow> byte list \<Rightarrow> string) \<Rightarrow> ID \<Rightarrow> error + (string \<times> error option)" where
  "GetBSON encode a =
     (case ID_String encode a of Inl e \<Rightarrow> Inl e | Inr b \<Rightarrow> Inr (b, None))"

section \<open>The generator\<close>

text \<open>
  A \<open>Node\<close> without its mutex. \<open>Generate\<close> takes the value \<open>now\<close> that \<open>time.Now()\<close> returns
  inside the critical section and gives the identifier and the node after the call.
\<close>

record Node =
  node_Environment :: string
  node_InstanceID :: "InstanceID option"
  ts :: Time
  seq :: "32 word"

definition NewNode :: "string \<Rightarrow> InstanceID option \<Rightarrow> Node" where
  "NewNode environment instanceID =
     \<lparr>node_Environment = environment, node_InstanceID = instanceID, ts = zeroTime, seq = 0\<rparr>"

definition Generate :: "Node \<Rightarrow> string \<Rightarrow> Time \<Rightarrow> ID \<times> Node" where
  "Generate n resource now =
     (let t = Time_UTC now;
          n' = (if Time_Sub t (ts n) > 1 * Second then n\<lparr>ts := t, seq := 0\<rparr>
                else n\<lparr>seq := seq n + 1\<rparr>)
      in (\<lparr>Environment = node_Environment n, Resource = resource, Timestamp = ts n',
           InstanceID = node_InstanceID n, SequenceID = seq n'\<rparr>, n'))"

text \<open>A run of calls on one node: the resources and clock readings in call order.\<close>

fun Generate_all :: "Node \<Rightarrow> (string \<times> Time) list \<Rightarrow> ID list \<times> Node" where
  "Generate_all n [] = ([], n)"
| "Generate_all n ((resource, now) # calls) =
     (case Generate n resource now of
        (a, n') \<Rightarrow> (case Generate_all n' calls of (ids, n'') \<Rightarrow> (a # ids, n'')))"

section \<open>The identifier set\<close>

text \<open>
  A \<open>Set\<close> without its lock: the slice \<open>items\<close> and the map \<open>lookup\<close> of type
  \<open>map[ID]struct{}\<close>, which is the set of its keys. Keys are compared by equality of the
  identifier values.
\<close>

record Set =
  items :: "ID list"
  lookup :: "ID set"

definition NewSet :: "ID list \<Rightarrow> Set" where
  "NewSet x = \<lparr>items = x, lookup = fold insert x {}\<rparr>"

definition Append :: "Set \<Rightarrow> ID \<Rightarrow> Set \<times> bool" where
  "Append s a =
     (if a \<notin> lookup s then (s\<lparr>lookup := insert a (lookup s), items := items s @ [a]\<rparr>, True)
      else (s, False))"

definition Len :: "Set \<Rightarrow> nat" where
  "Len s = length (items s)"

definition Exists :: "Set \<Rightarrow> ID \<Rightarrow> bool" where
  "Exists s a \<longleftrightarrow> a \<in> lookup s"

text \<open>The loop of \<open>Delete\<close>: the first element \<open>x\<close> with \<open>x.Equal(id)\<close> is cut out.\<close>

fun delete_first :: "ID list \<Rightarrow> ID \<Rightarrow> ID list" where
  "delete_first [] a = []"
| "delete_first (x # xs) a = (if Equal x a then xs else x # delete_first xs a)"

definition Delete :: "Set \<Rightarrow> ID \<Rightarrow> Set" where
  "Delete s a = s\<lparr>items := delete_first (items s) a, lookup := lookup s - {a}\<rparr>"

section \<open>Numbers and numerals\<close>

text \<open>The number a byte buffer holds (big endian), and the number a list of base-62 digits
  holds (most significant digit first).\<close>

definition be_val :: "byte list \<Rightarrow> nat" where
  "be_val b = foldl (\<lambda>a x. a * 256 + unat x) 0 b"

definition digits_val :: "byte list \<Rightarrow> nat" where
  "digits_val ds = foldl (\<lambda>a d. a * 62 + unat d) 0 ds"

definition base62_number :: "string \<Rightarrow> nat" where
  "base62_number s = digits_val (map base62Value s)"

text \<open>The \<open>k\<close> low bytes of a number, big endian.\<close>

fun be_bytes :: "nat \<Rightarrow> nat \<Rightarrow> byte list" where
  "be_bytes 0 n = []"
| "be_bytes (Suc k) n = be_bytes k (n div 256) @ [of_nat (n mod 256)]"

text \<open>The \<open>k\<close> low base-62 digits of a number, and their characters.\<close>

fun digits62 :: "nat \<Rightarrow> nat \<Rightarrow> nat list" where
  "digits62 0 n = []"
| "digits62 (Suc k) n = digits62 k (n div 62) @ [n mod 62]"

definition numeral62 :: "nat \<Rightarrow> nat \<Rightarrow> string" where
  "numeral62 k n = map (\<lambda>d. base62Characters ! d) (digits62 k n)"

text \<open>
  Modelled from the spec: the codec's \<open>Encode\<close>, which the repository takes from the module
  \<open>github.com/jamescun/basex\<close> and which is not among its sources. The spec describes it as
  the big-integer base conversion of the 21 bytes to base-62 digits, "left-padded with the
  '0' character to a fixed 29-character width".
\<close>

definition Encode :: "byte list \<Rightarrow> string" where
  "Encode b = numeral62 encodedLen (be_val b)"

definition base62_text :: "string \<Rightarrow> bool" where
  "base62_text s \<longleftrightarrow> length s = encodedLen \<and> set s \<subseteq> set base62Characters"

text \<open>The prefix of the text form, as the external interface gives it:
  \<open>[[environment '_'] resource '_']\<close>, the environment only when it is not the default.\<close>

definition text_prefix :: "ID \<Rightarrow> string" where
  "text_prefix a =
     (if Resource a = [] then []
      else (if Environment a \<noteq> [] \<and> Environment a \<noteq> Production
            then Environment a @ ''_'' else []) @ Resource a @ ''_'')"

text \<open>An instance identity in the form the parsers build: a hardware address of 6 bytes, a
  container or random identity of 8.\<close>

fun canonical :: "InstanceID \<Rightarrow> bool" where
  "canonical (HardwareID m p) \<longleftrightarrow> length m = 6"
| "canonical (DockerID c) \<longleftrightarrow> length c = 8"
| "canonical (RandomID r) \<longleftrightarrow> length r = 8"

section \<open>Test vectors\<close>

text \<open>The identifier of the repository's tests (\<open>TestParse\<close>, \<open>TestID\<close>):
  2018-04-05T16:53:42Z, hardware address 8C:85:90:5F:44:CA, process 32985, sequence 0.\<close>

definition test_instance :: InstanceID where
  "test_instance = HardwareID [0x8C, 0x85, 0x90, 0x5F, 0x44, 0xCA] 32985"

definition test_time :: Time where
  "test_time = \<lparr>sec = 1522947222, nsec = 0, loc = UTC\<rparr>"

definition test_id :: "string \<Rightarrow> string \<Rightarrow> ID" where
  "test_id environment resource =
     \<lparr>Environment = environment, Resource = resource, Timestamp = test_time,
      InstanceID = Some test_instance, SequenceID = 0\<rparr>"

text \<open>What the external encoder leaves in its buffer for that identifier's payload, as the
  expected outputs of \<open>TestID/Bytes\<close> record it: \<open>Bytes\<close> copies the first 27 characters of
  the buffer behind the two literal \<open>0\<close> characters, and the expected text is
  \<open>000000BPG6Lks9tQoAiJYrBRSXPX6\<close>.\<close>

definition test_encode :: "string \<Rightarrow> byte list \<Rightarrow> string" where
  "test_encode y x = copy_at y 0 ''0000BPG6Lks9tQoAiJYrBRSXPX6''"

section \<open>The decoder computes the number its digits hold\<close>

lemma byte_bound: "unat (c :: byte) < 256"
  using unsigned_less [of c, where 'a = nat] by simp

lemma step_unat:
  fixes c :: byte and r :: "64 word"
  assumes "unat r < 2 ^ 32"
  shows "unat (ucast c + r * srcBase) = unat c + unat r * 62"
proof -
  have c: "unat c < 256" by (rule byte_bound)
  have "unat r * unat srcBase < 2 ^ 64" using assms by (simp add: srcBase_def)
  then have m: "unat (r * srcBase) = unat r * 62"
    by (simp add: unat_mult_lem [THEN iffD1] srcBase_def)
  have u: "unat (ucast c :: 64 word) = unat c"
    using c by (simp add: unsigned_ucast_eq take_bit_eq_mod)
  have "unat (ucast c :: 64 word) + unat (r * srcBase) < 2 ^ 64"
    using assms c by (simp add: m u)
  then show ?thesis
    by (simp add: unat_add_lem [THEN iffD1] m u)
qed

lemma digit_unat:
  fixes v :: "64 word"
  shows "unat (v div dstBase) = unat v div 2 ^ 32" and "unat (v mod dstBase) = unat v mod 2 ^ 32"
  by (simp_all add: dstBase_def unat_div unat_mod)

lemma digit_byte:
  fixes v :: "64 word"
  assumes "unat v < 256 * 2 ^ 32"
  shows "unat (ucast (v div dstBase) :: byte) = unat v div 2 ^ 32"
proof -
  have "unat v div 2 ^ 32 < 256" using assms by (simp add: less_mult_imp_div_less)
  then show ?thesis
    by (simp add: unsigned_ucast_eq take_bit_eq_mod digit_unat)
qed

lemma digits_val_snoc: "digits_val (q @ [d]) = digits_val q * 62 + unat d"
  by (simp add: digits_val_def)

lemma divide_pass_spec:
  assumes "unat r < 2 ^ 32" and "divide_pass bp q r = (q', r')"
  shows "unat r' < 2 ^ 32 \<and>
         digits_val q' * 2 ^ 32 + unat r' =
           foldl (\<lambda>a d. a * 62 + unat d) (digits_val q * 2 ^ 32 + unat r) bp"
  using assms
proof (induction bp arbitrary: q r)
  case Nil
  then show ?case by simp
next
  case (Cons c bp)
  define v where "v = ucast c + r * srcBase"
  define qn where "qn = (if length q \<noteq> 0 \<or> v div dstBase \<noteq> 0 then q @ [ucast (v div dstBase)] else q)"
  have v: "unat v = unat c + unat r * 62"
    unfolding v_def using Cons.prems(1) by (rule step_unat)
  have vb: "unat v < 256 * 2 ^ 32"
    using v byte_bound [of c] Cons.prems(1) by simp
  have r': "unat (v mod dstBase) < 2 ^ 32"
    by (simp add: digit_unat)
  have pass: "divide_pass bp qn (v mod dstBase) = (q', r')"
    using Cons.prems(2) by (auto simp: v_def qn_def Let_def split: if_splits)
  have qn: "digits_val qn = digits_val q * 62 + unat v div 2 ^ 32"
  proof (cases "length q \<noteq> 0 \<or> v div dstBase \<noteq> 0")
    case True
    then show ?thesis
      using vb by (simp add: qn_def digits_val_snoc digit_byte)
  next
    case False
    then have "q = []" and "v div dstBase = 0" by simp_all
    then have "unat v div 2 ^ 32 = 0"
      using digit_unat(1) [of v] by simp
    then show ?thesis using False by (simp add: qn_def digits_val_def)
  qed
  have "digits_val qn * 2 ^ 32 + unat (v mod dstBase) = (digits_val q * 2 ^ 32 + unat r) * 62 + unat c"
    by (simp add: qn digit_unat v algebra_simps)
  with Cons.IH [OF r' pass] show ?case by simp
qed

lemma divide_pass_norm:
  assumes "q = [] \<or> hd q \<noteq> 0" and "unat r < 2 ^ 32" and "divide_pass bp q r = (q', r')"
  shows "q' = [] \<or> hd q' \<noteq> 0"
  using assms
proof (induction bp arbitrary: q r)
  case Nil
  then show ?case by simp
next
  case (Cons c bp)
  define v where "v = ucast c + r * srcBase"
  define qn where "qn = (if length q \<noteq> 0 \<or> v div dstBase \<noteq> 0 then q @ [ucast (v div dstBase)] else q)"
  have v: "unat v = unat c + unat r * 62"
    unfolding v_def using Cons.prems(2) by (rule step_unat)
  have vb: "unat v < 256 * 2 ^ 32"
    using v byte_bound [of c] Cons.prems(2) by simp
  have r': "unat (v mod dstBase) < 2 ^ 32"
    by (simp add: digit_unat)
  have pass: "divide_pass bp qn (v mod dstBase) = (q', r')"
    using Cons.prems(3) by (auto simp: v_def qn_def Let_def split: if_splits)
  have "qn = [] \<or> hd qn \<noteq> 0"
  proof (cases "q = []")
    case True
    show ?thesis
    proof (cases "v div dstBase = 0")
      case True
      with \<open>q = []\<close> show ?thesis by (simp add: qn_def)
    next
      case False
      then have "unat (v div dstBase) \<noteq> 0" by (simp add: unat_eq_0)
      then have "unat (ucast (v div dstBase) :: byte) \<noteq> 0"
        using vb by (simp add: digit_byte digit_unat)
      then have "(ucast (v div dstBase) :: byte) \<noteq> 0" by auto
      with \<open>q = []\<close> False show ?thesis by (simp add: qn_def)
    qed
  next
    case False
    with Cons.prems(1) show ?thesis by (simp add: qn_def)
  qed
  from Cons.IH [OF this r' pass] show ?case .
qed

lemma foldl_radix:
  "foldl (\<lambda>a d. a * b + g d) a xs = a * b ^ length xs + foldl (\<lambda>a d. a * b + g d) (0::nat) xs"
proof (induction xs arbitrary: a)
  case Nil
  then show ?case by simp
next
  case (Cons x xs)
  show ?case
    using Cons.IH [of "a * b + g x"] Cons.IH [of "g x"]
    by (simp add: algebra_simps)
qed

lemma digits_val_Cons: "digits_val (x # xs) = unat x * 62 ^ length xs + digits_val xs"
  using foldl_radix [of 62 unat "unat x" xs] by (simp add: digits_val_def)

lemma be_val_append: "be_val (xs @ ys) = be_val xs * 256 ^ length ys + be_val ys"
  using foldl_radix [of 256 unat "be_val xs" ys] by (simp add: be_val_def)

lemma be_val_replicate_0: "be_val (replicate k 0 @ xs) = be_val xs"
  by (induction k) (simp_all add: be_val_def)

lemma digits_val_pos:
  assumes "q \<noteq> []" and "hd q \<noteq> 0"
  shows "0 < digits_val q"
proof -
  obtain x xs where q: "q = x # xs" using assms(1) by (cases q) auto
  with assms(2) have "0 < unat x" by (simp add: unat_gt_0)
  then show ?thesis by (simp add: q digits_val_Cons)
qed

lemma be_bytes_be_val: "be_bytes (length d) (be_val d) = d"
proof (induction d rule: rev_induct)
  case Nil
  then show ?case by simp
next
  case (snoc x xs)
  have "unat x < 256" by (rule byte_bound)
  then show ?case using snoc by (simp add: be_val_append be_val_def)
qed

lemma nat_chunk:
  fixes x :: nat
  assumes "x < 2 ^ 32"
  shows "((x div 2 ^ 24 mod 256 * 256 + x div 2 ^ 16 mod 256) * 256 + x div 2 ^ 8 mod 256) * 256
           + x mod 256 = x"
proof -
  have a: "x div 2 ^ 8 = x div 256" by simp
  have b: "x div 2 ^ 16 = x div 256 div 256" by (simp add: div_mult2_eq [symmetric])
  have c: "x div 2 ^ 24 = x div 256 div 256 div 256" by (simp add: div_mult2_eq [symmetric])
  have "x div 2 ^ 24 < 256" using assms by (simp add: less_mult_imp_div_less)
  then have d: "x div 256 div 256 div 256 mod 256 = x div 256 div 256 div 256"
    unfolding c by simp
  have e: "\<And>y::nat. y div 256 * 256 + y mod 256 = y" by simp
  show ?thesis unfolding a b c d e ..
qed

lemma byte_of_shift:
  fixes r :: "64 word"
  shows "unat (ucast (drop_bit k r) :: byte) = unat r div 2 ^ k mod 256"
  unfolding unsigned_ucast_eq unat_drop_bit_eq
  by (simp add: take_bit_eq_mod drop_bit_eq_div)

lemma be_val_chunk:
  fixes r :: "64 word"
  assumes "unat r < 2 ^ 32"
  shows "be_val [ucast (drop_bit 24 r), ucast (drop_bit 16 r), ucast (drop_bit 8 r), ucast r :: byte] = unat r"
proof -
  have "unat (ucast r :: byte) = unat r mod 256"
    by (simp add: unsigned_ucast_eq take_bit_eq_mod)
  then have "be_val [ucast (drop_bit 24 r), ucast (drop_bit 16 r), ucast (drop_bit 8 r), ucast r :: byte]
      = ((unat r div 2 ^ 24 mod 256 * 256 + unat r div 2 ^ 16 mod 256) * 256 + unat r div 2 ^ 8 mod 256) * 256
           + unat r mod 256"
    unfolding be_val_def foldl.simps byte_of_shift by simp
  also have "\<dots> = unat r" using assms by (rule nat_chunk)
  finally show ?thesis .
qed


lemma chunk_write:
  assumes "4 \<le> n" and "n \<le> length dst"
  shows "drop (n - 4) (dst[n - 4 := a, n - 3 := b, n - 2 := c, n - 1 := d]) = [a, b, c, d] @ drop n dst"
proof -
  obtain m where n: "n = m + 4" using assms(1) by (metis le_add_diff_inverse2)
  have "drop m (dst[m := a, Suc m := b, Suc (Suc m) := c, Suc (Suc (Suc m)) := d])
          = [a, b, c, d] @ drop (m + 4) dst"
    using assms(2) unfolding n
    by (auto simp: list_eq_iff_nth_eq nth_list_update nth_Cons' )
  then show ?thesis by (simp add: n numeral_eq_Suc)
qed

lemma decode_loop_spec:
  assumes "n \<le> length dst" and "bp = [] \<or> hd bp \<noteq> 0 \<or> 4 \<le> n"
  shows "if bp \<noteq> [] \<and> 2 ^ (32 * (n div 4)) \<le> digits_val bp
         then decode_loop dst n bp = Inl (ParseError ''output buffer too short'')
         else \<exists>dst' n'. decode_loop dst n bp = Inr (dst', n') \<and> length dst' = length dst \<and>
                n' \<le> n \<and>
                be_val (drop n' dst') = digits_val bp * 256 ^ (length dst - n) + be_val (drop n dst)"
  using assms
proof (induction dst n bp rule: decode_loop.induct)
  case (1 dst n bp)
  show ?case
  proof (cases "bp = []")
    case True
    then show ?thesis
      by (simp add: decode_loop.simps [of dst n "[]"] digits_val_def)
  next
    case False
    obtain q r where qr: "divide_pass bp [] 0 = (q, r)" by fastforce
    have r: "unat r < 2 ^ 32" and val: "digits_val q * 2 ^ 32 + unat r = digits_val bp"
      using divide_pass_spec [OF _ qr] by (simp_all add: digits_val_def)
    have norm: "q = [] \<or> hd q \<noteq> 0"
      using divide_pass_norm [OF _ _ qr] by simp
    show ?thesis
    proof (cases "n < 4")
      case True
      with "1.prems"(2) False have "hd bp \<noteq> 0" by simp
      with False have "0 < digits_val bp" by (rule digits_val_pos)
      moreover from True have "n div 4 = 0" by simp
      ultimately show ?thesis
        using False True qr by (simp add: decode_loop.simps [of dst n bp])
    next
      case n4: False
      let ?dst1 = "dst[n - 4 := ucast (drop_bit 24 r), n - 3 := ucast (drop_bit 16 r),
                       n - 2 := ucast (drop_bit 8 r), n - 1 := ucast r]"
      have unfold: "decode_loop dst n bp = decode_loop ?dst1 (n - 4) q"
        using False n4 qr by (simp add: decode_loop.simps [of dst n bp])
      have len: "length ?dst1 = length dst" by simp
      have IH: "if q \<noteq> [] \<and> 2 ^ (32 * ((n - 4) div 4)) \<le> digits_val q
         then decode_loop ?dst1 (n - 4) q = Inl (ParseError ''output buffer too short'')
         else \<exists>dst' n'. decode_loop ?dst1 (n - 4) q = Inr (dst', n') \<and> length dst' = length ?dst1 \<and>
                n' \<le> n - 4 \<and>
                be_val (drop n' dst') = digits_val q * 256 ^ (length ?dst1 - (n - 4)) + be_val (drop (n - 4) ?dst1)"
      proof (rule "1.IH" [OF _ qr [symmetric] n4])
        show "0 < length bp" using False by simp
        show "n - 4 \<le> length ?dst1" using "1.prems"(1) by simp
        show "q = [] \<or> hd q \<noteq> 0 \<or> 4 \<le> n - 4" using norm by blast
      qed
      have q0: "q = [] \<Longrightarrow> digits_val q = 0" by (simp add: digits_val_def)
      have k: "n div 4 = Suc ((n - 4) div 4)" using n4 by (simp add: le_div_geq)
      have dq: "digits_val q = digits_val bp div 2 ^ 32"
        using val r by (metis div_mult_self3 div_less add.right_neutral power_not_zero zero_neq_numeral)
      have cond: "(q \<noteq> [] \<and> 2 ^ (32 * ((n - 4) div 4)) \<le> digits_val q)
                    \<longleftrightarrow> 2 ^ (32 * (n div 4)) \<le> digits_val bp"
      proof -
        have "2 ^ (32 * ((n - 4) div 4)) \<le> digits_val q \<longleftrightarrow> 2 ^ (32 * (n div 4)) \<le> digits_val bp"
          unfolding k dq by (simp add: less_eq_div_iff_mult_less_eq power_add mult.commute)
        moreover have "q = [] \<Longrightarrow> \<not> 2 ^ (32 * ((n - 4) div 4)) \<le> digits_val q"
          using q0 by simp
        ultimately show ?thesis by blast
      qed
      have chunk: "be_val (drop (n - 4) ?dst1) = unat r * 256 ^ (length dst - n) + be_val (drop n dst)"
      proof -
        have "4 \<le> n" using n4 by simp
        then have "drop (n - 4) ?dst1 =
            [ucast (drop_bit 24 r), ucast (drop_bit 16 r), ucast (drop_bit 8 r), ucast r] @ drop n dst"
          using "1.prems"(1) by (rule chunk_write)
        then have "be_val (drop (n - 4) ?dst1) =
            be_val [ucast (drop_bit 24 r), ucast (drop_bit 16 r), ucast (drop_bit 8 r), ucast r :: byte]
              * 256 ^ length (drop n dst) + be_val (drop n dst)"
          by (simp only: be_val_append)
        then show ?thesis
          by (simp only: be_val_chunk [OF r] length_drop)
      qed
      show ?thesis
      proof (cases "2 ^ (32 * (n div 4)) \<le> digits_val bp")
        case True
        with IH cond False show ?thesis by (simp add: unfold)
      next
        case nover: False
        with IH cond obtain dst' n' where
          res: "decode_loop ?dst1 (n - 4) q = Inr (dst', n')" and l: "length dst' = length ?dst1"
          and n': "n' \<le> n - 4"
          and v: "be_val (drop n' dst') = digits_val q * 256 ^ (length ?dst1 - (n - 4)) + be_val (drop (n - 4) ?dst1)"
          by auto
        have e: "length dst - (n - 4) = (length dst - n) + 4"
          using n4 "1.prems"(1) by simp
        have "be_val (drop n' dst') = digits_val bp * 256 ^ (length dst - n) + be_val (drop n dst)"
          unfolding v chunk len e val [symmetric] by (simp add: power_add algebra_simps)
        with res l n' nover show ?thesis by (simp add: unfold)
      qed
    qed
  qed
qed

lemma fastDecodeBase62_spec:
  assumes "length dst = decodedLen" and "length src = encodedLen"
  shows "fastDecodeBase62 dst src =
           (if base62_number src < 2 ^ 160 then Inr (be_bytes decodedLen (base62_number src))
            else Inl (ParseError ''output buffer too short''))"
proof -
  let ?bp = "map base62Value (take encodedLen src)"
  have bp: "?bp \<noteq> []" using assms(2) by (auto simp: encodedLen_def)
  have N: "digits_val ?bp = base62_number src" using assms(2) by (simp add: base62_number_def)
  have d: "length dst div 4 = 5" using assms(1) by (simp add: decodedLen_def)
  have spec: "if ?bp \<noteq> [] \<and> 2 ^ (32 * (length dst div 4)) \<le> digits_val ?bp
         then decode_loop dst (length dst) ?bp = Inl (ParseError ''output buffer too short'')
         else \<exists>dst' n'. decode_loop dst (length dst) ?bp = Inr (dst', n') \<and> length dst' = length dst \<and>
                n' \<le> length dst \<and>
                be_val (drop n' dst') = digits_val ?bp * 256 ^ (length dst - length dst) + be_val (drop (length dst) dst)"
    by (rule decode_loop_spec) (simp_all add: assms(1) decodedLen_def)
  show ?thesis
  proof (cases "base62_number src < 2 ^ 160")
    case True
    with spec bp obtain dst' n' where
      res: "decode_loop dst (length dst) ?bp = Inr (dst', n')" and l: "length dst' = length dst"
      and n': "n' \<le> length dst" and v: "be_val (drop n' dst') = base62_number src"
      by (auto simp: d N be_val_def)
    let ?out = "copy_at dst' 0 (replicate (min n' decodedLen) 0)"
    have out: "?out = replicate n' 0 @ drop n' dst'"
      using n' l assms(1) by (simp add: copy_at_def min_def)
    have "length ?out = decodedLen" unfolding out using n' l assms(1) by simp
    moreover have "be_val ?out = base62_number src"
      unfolding out by (simp add: be_val_replicate_0 v)
    ultimately have "?out = be_bytes decodedLen (base62_number src)"
      using be_bytes_be_val [of ?out] by simp
    with True res assms(2) show ?thesis by (simp add: fastDecodeBase62_def)
  next
    case False
    with spec bp have "decode_loop dst (length dst) ?bp = Inl (ParseError ''output buffer too short'')"
      by (simp add: d N)
    with False assms(2) show ?thesis by (simp add: fastDecodeBase62_def)
  qed
qed

section \<open>The text form is prefix, two zeros and the encoder's first 27 characters\<close>

lemma copy_at_fill:
  assumes "length src \<le> m"
  shows "copy_at (pre @ replicate m z) (length pre) src = pre @ src @ replicate (m - length src) z"
  using assms by (simp add: copy_at_def)

lemma update_fill: "(pre @ replicate (Suc m) z)[length pre := c] = pre @ c # replicate m z"
  by (simp add: list_update_append)

lemma write_prefix_fill:
  "write_prefix a (replicate (prefixLen a + k) z) = text_prefix a @ replicate k z"
proof (cases "Resource a = []")
  case True
  then show ?thesis by (simp add: write_prefix_def prefixLen_def text_prefix_def)
next
  case False
  let ?D = "replicate (prefixLen a + k) z"
  show ?thesis
  proof (cases "Environment a \<noteq> [] \<and> Environment a \<noteq> Production")
    case True
    let ?e = "Environment a" and ?r = "Resource a"
    have n: "prefixLen a + k = length ?e + Suc (length ?r + Suc k)"
      using True False by (simp add: prefixLen_def)
    have 0: "write_prefix a ?D =
        (copy_at ((copy_at ?D 0 ?e)[length ?e := CHR ''_'']) (length ?e + 1) ?r)
          [length ?e + 1 + length ?r := CHR ''_'']"
      using True False by (simp add: write_prefix_def)
    have 1: "copy_at ?D 0 ?e = ?e @ replicate (Suc (length ?r + Suc k)) z"
      using copy_at_fill [of ?e "prefixLen a + k" "[]" z] by (simp add: n)
    have 2: "(?e @ replicate (Suc (length ?r + Suc k)) z)[length ?e := CHR ''_'']
               = (?e @ ''_'') @ replicate (length ?r + Suc k) z"
      by (simp add: update_fill)
    have 3: "copy_at ((?e @ ''_'') @ replicate (length ?r + Suc k) z) (length ?e + 1) ?r
               = (?e @ ''_'') @ ?r @ replicate (Suc k) z"
      using copy_at_fill [of ?r "length ?r + Suc k" "?e @ ''_''" z] by simp
    have 4: "((?e @ ''_'') @ ?r @ replicate (Suc k) z)[length ?e + 1 + length ?r := CHR ''_'']
               = (?e @ ''_'' @ ?r) @ CHR ''_'' # replicate k z"
      using update_fill [of "?e @ ''_'' @ ?r" k z "CHR ''_''"] by (simp add: add.commute)
    have 5: "(?e @ ''_'' @ ?r) @ CHR ''_'' # replicate k z = text_prefix a @ replicate k z"
      using True False by (simp add: text_prefix_def)
    show ?thesis unfolding 0 1 2 3 4 5 ..
  next
    case noenv: False
    let ?r = "Resource a"
    have n: "prefixLen a + k = length ?r + Suc k"
      using noenv False by (auto simp: prefixLen_def)
    have 0: "write_prefix a ?D = (copy_at ?D 0 ?r)[0 + length ?r := CHR ''_'']"
      using noenv False by (auto simp: write_prefix_def)
    have 3: "copy_at ?D 0 ?r = ?r @ replicate (Suc k) z"
      using copy_at_fill [of ?r "prefixLen a + k" "[]" z] by (simp add: n)
    have 4: "(?r @ replicate (Suc k) z)[0 + length ?r := CHR ''_''] = ?r @ CHR ''_'' # replicate k z"
      using update_fill [of ?r k z] by simp
    have 5: "?r @ CHR ''_'' # replicate k z = text_prefix a @ replicate k z"
      using noenv False by (auto simp: text_prefix_def)
    show ?thesis unfolding 0 3 4 5 ..
  qed
qed

lemma length_text_prefix: "length (text_prefix a) = prefixLen a"
  by (simp add: text_prefix_def prefixLen_def)

lemma ID_Bytes_text:
  assumes "InstanceID a = Some i"
  shows "ID_Bytes encode a =
           Inr (text_prefix a @ ''00'' @
                take 27 (encode (replicate encodedLen (CHR 0x00)) (payload a i) @ replicate 27 (CHR 0x00)))"
proof -
  let ?y = "encode (replicate encodedLen (CHR 0x00)) (payload a i)"
  let ?p = "text_prefix a"
  let ?z = "CHR 0x00"
  have 0: "ID_Bytes encode a =
      Inr ((copy_at (write_prefix a (replicate (prefixLen a + encodedLen) ?z)) (prefixLen a + 2) ?y)
             [prefixLen a := CHR ''0'', prefixLen a + 1 := CHR ''0''])"
    unfolding ID_Bytes_def Let_def assms by simp
  have dst: "write_prefix a (replicate (prefixLen a + encodedLen) ?z) = ?p @ replicate 29 ?z"
    by (simp add: write_prefix_fill encodedLen_def)
  have r29: "replicate 29 ?z = ?z # ?z # replicate 27 ?z"
    by (simp add: numeral_eq_Suc)
  have c: "copy_at (?p @ replicate 29 ?z) (prefixLen a + 2) ?y
             = ?p @ [?z, ?z] @ take 27 (?y @ replicate 27 ?z)"
    by (simp add: copy_at_def length_text_prefix r29 )
  have u: "(?p @ [?z, ?z] @ take 27 (?y @ replicate 27 ?z))[prefixLen a := CHR ''0'', prefixLen a + 1 := CHR ''0'']
             = ?p @ ''00'' @ take 27 (?y @ replicate 27 ?z)"
    by (simp add: list_update_append length_text_prefix)
  show ?thesis unfolding 0 dst c u ..
qed

section \<open>Equality\<close>

text \<open>
  Claim C9. \<open>Equal(a, b)\<close> holds only if both identifiers hold an instance identity and
  their environment, resource, scheme tag, fingerprint, timestamp (the instant: seconds and
  nanoseconds) and sequence are the same. An identifier whose instance identity is absent
  is equal to nothing: not to another identifier, in either order, and not to itself.
\<close>

theorem Equal_semantics:
  "(Equal a b \<longrightarrow>
      (\<exists>i j. InstanceID a = Some i \<and> InstanceID b = Some j \<and>
             Environment a = Environment b \<and> Resource a = Resource b \<and>
             Scheme i = Scheme j \<and> InstanceID_Bytes i = InstanceID_Bytes j \<and>
             sec (Timestamp a) = sec (Timestamp b) \<and> nsec (Timestamp a) = nsec (Timestamp b) \<and>
             SequenceID a = SequenceID b)) \<and>
   (InstanceID x = None \<longrightarrow> \<not> Equal x y \<and> \<not> Equal y x \<and> \<not> Equal x x)"
  by (auto simp: Equal_def Time_Equal_def split: option.splits)

theorem Equal_semantics_witness:
  "Equal (test_id ''prod'' ''user'') (test_id ''prod'' ''user'') \<and>
   InstanceID (test_id ''prod'' ''user'') = Some test_instance \<and>
   InstanceID zeroID = None \<and> \<not> Equal zeroID zeroID \<and>
   \<not> Equal zeroID (test_id ''prod'' ''user'') \<and> \<not> Equal (test_id ''prod'' ''user'') zeroID"
proof -
  have e: "Equal (test_id ''prod'' ''user'') (test_id ''prod'' ''user'')"
    by (simp add: Equal_def test_id_def Time_Equal_def)
  have z: "InstanceID zeroID = None" by (simp add: zeroID_def)
  show ?thesis
    using e z Equal_semantics [of "test_id ''prod'' ''user''" "test_id ''prod'' ''user''" zeroID "test_id ''prod'' ''user''"]
      Equal_semantics [of "test_id ''prod'' ''user''" "test_id ''prod'' ''user''" zeroID zeroID]
    by (simp add: test_id_def)
qed

section \<open>Encoding an identifier without an instance identity\<close>

text \<open>
  Claim C10. \<open>Bytes\<close> calls \<open>id.InstanceID.Bytes()\<close> before it encodes anything, so on an
  identifier whose instance identity is the nil interface (the zero \<open>ID\<close> is one) it panics;
  \<open>String\<close>, \<open>Value\<close>, \<open>MarshalJSON\<close> and \<open>GetBSON\<close> call it and panic with it. None of
  them returns an error value there.
\<close>

theorem Bytes_nil_instance_panics:
  assumes "InstanceID a = None"
  shows "ID_Bytes encode a = Inl PanicNilInterface \<and> ID_String encode a = Inl PanicNilInterface \<and>
         ID_Value encode a = Inl PanicNilInterface \<and> MarshalJSON encode a = Inl PanicNilInterface \<and>
         GetBSON encode a = Inl PanicNilInterface"
  using assms by (simp add: ID_Bytes_def ID_String_def ID_Value_def MarshalJSON_def GetBSON_def Let_def)

theorem Bytes_nil_instance_panics_witness:
  "InstanceID zeroID = None \<and> ID_Bytes test_encode zeroID = Inl PanicNilInterface \<and>
   ID_String test_encode zeroID = Inl PanicNilInterface \<and>
   ID_Value test_encode zeroID = Inl PanicNilInterface \<and>
   MarshalJSON test_encode zeroID = Inl PanicNilInterface \<and>
   GetBSON test_encode zeroID = Inl PanicNilInterface"
proof -
  have z: "InstanceID zeroID = None" by (simp add: zeroID_def)
  show ?thesis using z Bytes_nil_instance_panics [OF z, of test_encode] by simp
qed

section \<open>The layout of the text form\<close>

text \<open>
  Claim C6. For an identifier with an instance identity, and whatever the external encoder
  writes into its buffer, \<open>Bytes\<close> returns a text of length prefix length + 29. The prefix
  length is 0 for an empty resource, and otherwise the length of the resource plus 1, plus
  the length of the environment plus 1 when the environment is neither empty nor
  \<open>prod\<close>. The text starts with the prefix \<open>[environment _] resource _\<close>, the two
  characters after the prefix are \<open>0\<close> and \<open>0\<close>, and the 27 characters that follow are the
  base-62 body: the first 27 characters of the encoder's 29-character buffer.
\<close>

theorem Bytes_layout:
  assumes "InstanceID a = Some i"
  shows "\<exists>t. ID_Bytes encode a = Inr t \<and> length t = prefixLen a + 29 \<and>
           prefixLen a =
             (if Resource a = [] then 0
              else length (Resource a) + 1 +
                   (if Environment a \<noteq> [] \<and> Environment a \<noteq> ''prod''
                    then length (Environment a) + 1 else 0)) \<and>
           take (prefixLen a) t = text_prefix a \<and>
           t ! prefixLen a = CHR ''0'' \<and> t ! (prefixLen a + 1) = CHR ''0'' \<and>
           drop (prefixLen a + 2) t =
             take 27 (encode (replicate 29 (CHR 0x00)) (payload a i) @ replicate 27 (CHR 0x00))"
proof -
  let ?b = "take 27 (encode (replicate 29 (CHR 0x00)) (payload a i) @ replicate 27 (CHR 0x00))"
  let ?t = "text_prefix a @ ''00'' @ ?b"
  have t: "ID_Bytes encode a = Inr ?t"
    using ID_Bytes_text [OF assms, of encode] by (simp add: encodedLen_def)
  have lb: "length ?b = 27" by simp
  have 1: "length ?t = prefixLen a + 29" by (simp add: length_text_prefix)
  have 2: "take (prefixLen a) ?t = text_prefix a" by (simp add: length_text_prefix)
  have 3: "?t ! prefixLen a = CHR ''0''"
    by (simp add: nth_append length_text_prefix)
  have 4: "?t ! (prefixLen a + 1) = CHR ''0''"
    by (simp add: nth_append length_text_prefix)
  have 5: "drop (prefixLen a + 2) ?t = ?b" by (simp add: length_text_prefix)
  have 6: "prefixLen a =
             (if Resource a = [] then 0
              else length (Resource a) + 1 +
                   (if Environment a \<noteq> [] \<and> Environment a \<noteq> ''prod''
                    then length (Environment a) + 1 else 0))"
    by (simp add: prefixLen_def Production_def)
  from t 1 2 3 4 5 6 show ?thesis by blast
qed

theorem Bytes_layout_witness:
  "InstanceID (test_id ''test'' ''user'') = Some test_instance \<and>
   (\<exists>t. ID_Bytes test_encode (test_id ''test'' ''user'') = Inr t \<and> length t = 39 \<and>
        take 10 t = ''test_user_'' \<and> t ! 10 = CHR ''0'' \<and> t ! 11 = CHR ''0'' \<and>
        drop 12 t = ''0000BPG6Lks9tQoAiJYrBRSXPX6'')"
proof -
  have h: "InstanceID (test_id ''test'' ''user'') = Some test_instance"
    by (simp add: test_id_def)
  have p: "prefixLen (test_id ''test'' ''user'') = 10"
    by (simp add: prefixLen_def test_id_def Production_def)
  have x: "text_prefix (test_id ''test'' ''user'') = ''test_user_''"
    by (simp add: text_prefix_def test_id_def Production_def)
  have e: "take 27 (test_encode (replicate 29 (CHR 0x00)) (payload (test_id ''test'' ''user'') test_instance)
             @ replicate 27 (CHR 0x00)) = ''0000BPG6Lks9tQoAiJYrBRSXPX6''"
    by (simp add: test_encode_def copy_at_def)
  show ?thesis
    using h Bytes_layout [OF h, of test_encode] unfolding p x e by auto
qed

section \<open>The identifier set\<close>

text \<open>
  Claim C8. The set's documentation promises an ordered array "where each item exists
  exactly once", and the claim states it as an invariant of every set built with
  \<open>NewSet\<close>, \<open>Append\<close> and \<open>Delete\<close>. The code does not keep it. \<open>NewSet\<close> stores its
  arguments as they come, without the membership check that \<open>Append\<close> makes: with the same
  identifier twice, the sequence holds it twice and the index once. \<open>Delete\<close> looks for
  the element with \<open>Equal\<close> but removes the key itself from the index: for an identifier
  without instance identity, which \<open>Equal\<close> never matches, the element stays in the
  sequence and leaves the index.
\<close>

theorem Set_invariant_broken:
  "items (NewSet [test_id ''prod'' ''example'', test_id ''prod'' ''example''])
     = [test_id ''prod'' ''example'', test_id ''prod'' ''example''] \<and>
   lookup (NewSet [test_id ''prod'' ''example'', test_id ''prod'' ''example''])
     = {test_id ''prod'' ''example''} \<and>
   count_list (items (NewSet [test_id ''prod'' ''example'', test_id ''prod'' ''example'']))
     (test_id ''prod'' ''example'') = 2 \<and>
   items (Delete (NewSet [zeroID]) zeroID) = [zeroID] \<and>
   lookup (Delete (NewSet [zeroID]) zeroID) = {}"
  by (simp add: NewSet_def Delete_def Equal_def zeroID_def)

section \<open>The generator's step\<close>

lemma Time_Sub_adopt:
  assumes "Time_Sub t u > 1 * Second"
  shows "instant u < instant t"
proof -
  let ?d = "(sec t - sec u) * 1000000000 + (int (nsec t) - int (nsec u))"
  have "0 < ?d"
    using assms by (simp add: Time_Sub_def Second_def Let_def split: if_splits)
  then show ?thesis by (simp add: instant_def algebra_simps)
qed

lemma Time_Sub_same_second:
  assumes "sec t = sec u" and "nsec t < 1000000000"
  shows "\<not> Time_Sub t u > 1 * Second"
  using assms by (simp add: Time_Sub_def Second_def Let_def)

lemma instant_UTC: "instant (Time_UTC t) = instant t"
  by (simp add: instant_def Time_UTC_def)

lemma seq_succ:
  fixes s :: "32 word"
  shows "unat (s + 1) = (unat s + 1) mod 2 ^ 32" and "s \<noteq> 0xFFFFFFFF \<Longrightarrow> s < s + 1"
proof -
  show "unat (s + 1) = (unat s + 1) mod 2 ^ 32"
    by (simp add: unat_word_ariths)
  assume "s \<noteq> 0xFFFFFFFF"
  have "s = 0xFFFFFFFF" if "unat s = 4294967295"
  proof -
    have "word_of_nat (unat s) = (word_of_nat 4294967295 :: 32 word)" using that by simp
    then show ?thesis by simp
  qed
  with \<open>s \<noteq> 0xFFFFFFFF\<close> have "unat s \<noteq> 4294967295" by blast
  moreover have "unat s < 2 ^ 32" using unsigned_less [of s, where 'a = nat] by simp
  ultimately have "unat s + 1 < 2 ^ 32" by simp
  then have "unat (s + 1) = unat s + 1" by (simp add: unat_word_ariths)
  then show "s < s + 1" by (simp add: word_less_nat_alt)
qed

text \<open>
  Claim C3, as the code has it. A call of \<open>Generate\<close> that reads a clock value more than
  one second after the recorded time adopts it (in UTC) and sets the sequence to 0; every
  other call keeps the recorded time and adds 1 to the sequence, in 32 bits (so modulo
  \<open>2^32\<close>). The identifier carries the recorded time and sequence after the step. The
  recorded time never decreases. A call whose clock value lies in the same wall-clock
  second as the recorded time keeps that time, and its sequence number is larger than the
  one before unless the 32-bit counter wraps from \<open>2^32 - 1\<close> to 0.
\<close>

theorem Generate_step:
  assumes "Generate n resource now = (a, n')"
  shows "(if Time_Sub (Time_UTC now) (ts n) > 1 * Second
          then ts n' = Time_UTC now \<and> seq n' = 0
          else ts n' = ts n \<and> seq n' = seq n + 1) \<and>
         Timestamp a = ts n' \<and> SequenceID a = seq n' \<and>
         instant (ts n) \<le> instant (ts n') \<and>
         (sec now = sec (ts n) \<and> nsec now < 1000000000 \<longrightarrow>
            ts n' = ts n \<and> unat (seq n') = (unat (seq n) + 1) mod 2 ^ 32 \<and>
            (seq n \<noteq> 0xFFFFFFFF \<longrightarrow> seq n < seq n'))"
proof -
  let ?adopt = "Time_Sub (Time_UTC now) (ts n) > 1 * Second"
  have n': "n' = (if ?adopt then n\<lparr>ts := Time_UTC now, seq := 0\<rparr> else n\<lparr>seq := seq n + 1\<rparr>)"
    and a: "Timestamp a = ts n'" "SequenceID a = seq n'"
    using assms by (auto simp: Generate_def Let_def)
  have step: "if ?adopt then ts n' = Time_UTC now \<and> seq n' = 0
              else ts n' = ts n \<and> seq n' = seq n + 1"
    by (simp add: n')
  have mono: "instant (ts n) \<le> instant (ts n')"
  proof (cases ?adopt)
    case True
    then show ?thesis using Time_Sub_adopt [OF True] by (simp add: n')
  next
    case False
    then show ?thesis by (simp add: n')
  qed
  have same: "ts n' = ts n \<and> unat (seq n') = (unat (seq n) + 1) mod 2 ^ 32 \<and>
              (seq n \<noteq> 0xFFFFFFFF \<longrightarrow> seq n < seq n')"
    if "sec now = sec (ts n)" and "nsec now < 1000000000"
  proof -
    have "\<not> ?adopt"
      by (rule Time_Sub_same_second) (simp_all add: that Time_UTC_def)
    then have "ts n' = ts n" and "seq n' = seq n + 1" by (simp_all add: n')
    then show ?thesis using seq_succ [of "seq n"] by simp
  qed
  from step a mono same show ?thesis by blast
qed

theorem Generate_step_witness:
  "Generate (NewNode ''prod'' (Some test_instance)) ''user'' test_time
     = (test_id ''prod'' ''user'', \<lparr>node_Environment = ''prod'', node_InstanceID = Some test_instance,
          ts = test_time, seq = 0\<rparr>) \<and>
   Generate \<lparr>node_Environment = ''prod'', node_InstanceID = Some test_instance, ts = test_time, seq = 0\<rparr>
     ''user'' test_time
     = ((test_id ''prod'' ''user'')\<lparr>SequenceID := 1\<rparr>,
        \<lparr>node_Environment = ''prod'', node_InstanceID = Some test_instance, ts = test_time, seq = 1\<rparr>) \<and>
   (0 :: 32 word) < 1"
proof -
  let ?n1 = "\<lparr>node_Environment = ''prod'', node_InstanceID = Some test_instance, ts = test_time, seq = 0\<rparr>"
  let ?n2 = "\<lparr>node_Environment = ''prod'', node_InstanceID = Some test_instance, ts = test_time, seq = 1\<rparr>"
  have g1: "Generate (NewNode ''prod'' (Some test_instance)) ''user'' test_time = (test_id ''prod'' ''user'', ?n1)"
    by (simp add: Generate_def NewNode_def test_time_def test_id_def zeroTime_def Time_UTC_def
        Time_Sub_def Second_def Let_def)
  have g2: "Generate ?n1 ''user'' test_time = ((test_id ''prod'' ''user'')\<lparr>SequenceID := 1\<rparr>, ?n2)"
    by (simp add: Generate_def test_time_def test_id_def Time_UTC_def Time_Sub_def Second_def Let_def)
  have s: "sec test_time = sec (ts ?n1) \<and> nsec test_time < 1000000000"
    by (simp add: test_time_def)
  show ?thesis
    using g1 g2 s Generate_step [OF g2] by simp
qed

text \<open>
  The claim as stated fails: it measures "the same wall-clock second" between calls, the code
  measures one second from the recorded time. A node that recorded 0.5 s increments at
  1.2 s (sequence 1, time 0.5 s) and resets at 1.8 s (sequence 0, time 1.8 s): two calls in
  the same wall-clock second, a smaller sequence number and another timestamp. And a
  sequence at \<open>2^32 - 1\<close> continues with 0.
\<close>

theorem Generate_same_second_counterexample:
  "map (\<lambda>a. (sec (Timestamp a), nsec (Timestamp a), SequenceID a))
     (fst (Generate_all (NewNode ''prod'' (Some test_instance))
        [(''user'', \<lparr>sec = 0, nsec = 500000000, loc = Local\<rparr>),
         (''user'', \<lparr>sec = 1, nsec = 200000000, loc = Local\<rparr>),
         (''user'', \<lparr>sec = 1, nsec = 800000000, loc = Local\<rparr>)]))
     = [(0, 500000000, 0), (0, 500000000, 1), (1, 800000000, 0)] \<and>
   SequenceID (fst (Generate
       \<lparr>node_Environment = ''prod'', node_InstanceID = Some test_instance, ts = test_time,
        seq = 0xFFFFFFFF\<rparr> ''user'' test_time)) = 0"
  by (simp add: Generate_def NewNode_def zeroTime_def Time_UTC_def Time_Sub_def Second_def Let_def
      test_time_def)

lemma Generate_all_ts:
  assumes "Generate_all n calls = (ids, n')" and "P (ts n)"
    and "\<And>c. c \<in> set calls \<Longrightarrow> P (Time_UTC (snd c))"
  shows "P (ts n') \<and> (\<forall>b \<in> set ids. P (Timestamp b))"
  using assms
proof (induction calls arbitrary: n ids n')
  case Nil
  then show ?case by simp
next
  case (Cons c calls)
  obtain r now where c: "c = (r, now)" by (cases c)
  obtain a n1 where g: "Generate n r now = (a, n1)" by fastforce
  obtain ids1 n2 where ga: "Generate_all n1 calls = (ids1, n2)" by fastforce
  have res: "ids = a # ids1" "n' = n2"
    using Cons.prems(1) by (simp_all add: c g ga)
  have "P (Time_UTC now)" using Cons.prems(3) [of c] by (simp add: c)
  then have p1: "P (ts n1)" and pa: "P (Timestamp a)"
    using g Cons.prems(2) by (auto simp: Generate_def Let_def split: if_splits)
  have "P (ts n2) \<and> (\<forall>b \<in> set ids1. P (Timestamp b))"
    using Cons.IH [OF ga p1] Cons.prems(3) by simp
  then show ?case using pa by (simp add: res)
qed

lemma Parse_ok_timestamp:
  assumes "Parse s = (a, None)"
  shows "\<exists>dst. fastDecodeBase62 (replicate decodedLen 0) (snd (snd (splitPrefixID s))) = Inr dst \<and>
               Timestamp a = \<lparr>sec = sint (Uint64 (take 8 dst)), nsec = 0, loc = UTC\<rparr>"
  using assms
  by (auto simp: Parse_def Let_def time_Unix_def Time_UTC_def
      split: prod.splits if_splits sum.splits error.splits)

section \<open>Evaluating the decoder and the encoder on the test vector\<close>

lemma be_bytes_numeral:
  "be_bytes (numeral k) n = be_bytes (pred_numeral k) (n div 256) @ [of_nat (n mod 256)]"
  by (simp only: numeral_eq_Suc [of k] be_bytes.simps)

lemma digits62_numeral:
  "digits62 (numeral k) n = digits62 (pred_numeral k) (n div 62) @ [n mod 62]"
  by (simp only: numeral_eq_Suc [of k] digits62.simps)

lemma replicate_numeral: "replicate (numeral k) x = x # replicate (pred_numeral k) x"
  by (simp only: numeral_eq_Suc [of k] replicate.simps)

lemma decode_at:
  assumes "length s = encodedLen" and "base62_number s = n" and "n < 2 ^ 160"
  shows "fastDecodeBase62 (replicate decodedLen 0) s = Inr (be_bytes decodedLen n)"
  using fastDecodeBase62_spec [of "replicate decodedLen 0" s] assms by simp

lemma test_digits:
  "map base62Value ''000000BPG6Lks9tQoAiJYrBRSXPX6'' =
     [0,0,0,0,0,0,11,25,16,6,21,46,54,9,55,26,50,10,44,19,34,53,11,27,28,33,25,33,6]"
  by (simp add: base62Value_def offsetUppercase_def offsetLowercase_def)

lemma test_number:
  "base62_number ''000000BPG6Lks9tQoAiJYrBRSXPX6'' = 30889039367095349599124229118851553427456"
  unfolding base62_number_def test_digits by (simp add: digits_val_def)

lemma test_bytes:
  "be_bytes decodedLen 30889039367095349599124229118851553427456 =
     [0, 0, 0, 0, 90, 198, 84, 150, 72, 140, 133, 144, 95, 68, 202, 128, 217, 0, 0, 0, 0]"
  by (simp add: decodedLen_def be_bytes_numeral)

lemma test_decode:
  "fastDecodeBase62 (replicate decodedLen 0) ''000000BPG6Lks9tQoAiJYrBRSXPX6'' =
     Inr [0, 0, 0, 0, 90, 198, 84, 150, 72, 140, 133, 144, 95, 68, 202, 128, 217, 0, 0, 0, 0]"
  using decode_at [OF _ test_number] by (simp add: encodedLen_def test_bytes)

lemma test_payload:
  "payload (test_id e r) test_instance =
     [0, 0, 0, 0, 90, 198, 84, 150, 72, 140, 133, 144, 95, 68, 202, 128, 217, 0, 0, 0, 0]"
  by (simp add: payload_def test_id_def test_instance_def test_time_def decodedLen_def copy_at_def
      be64_def be32_def be16_def arr8_def Time_Unix_def replicate_numeral)

lemma test_encoding:
  "Encode [0, 0, 0, 0, 90, 198, 84, 150, 72, 140, 133, 144, 95, 68, 202, 128, 217, 0, 0, 0, 0] =
     ''000000BPG6Lks9tQoAiJYrBRSXPX6''"
  by (simp add: Encode_def numeral62_def encodedLen_def be_val_def digits62_numeral base62Characters_def)

section \<open>Splitting the prefix\<close>

lemma test_parse: "Parse ''user_000000BPG6Lks9tQoAiJYrBRSXPX6'' = (test_id ''prod'' ''user'', None)"
  by (simp add: Parse_def splitPrefixID_def test_decode encodedLen_def zeroID_def Production_def
      ParseInstanceID_def ParseHardwareID_def Uint64_def Uint32_def Uint16_def time_Unix_def Time_UTC_def
      test_id_def test_instance_def test_time_def)

lemma test_parse_bare: "Parse ''000000BPG6Lks9tQoAiJYrBRSXPX6'' = (test_id ''prod'' [], None)"
  by (simp add: Parse_def splitPrefixID_def test_decode encodedLen_def zeroID_def Production_def
      ParseInstanceID_def ParseHardwareID_def Uint64_def Uint32_def Uint16_def time_Unix_def Time_UTC_def
      test_id_def test_instance_def test_time_def)

lemma IndexByte_none: "c \<notin> set s \<Longrightarrow> IndexByte s c = - 1"
  by (induction s) auto

lemma LastIndexByte_none: "c \<notin> set s \<Longrightarrow> LastIndexByte s c = - 1"
  by (induction s) auto

lemma IndexByte_first: "c \<notin> set pre \<Longrightarrow> IndexByte (pre @ c # rest) c = int (length pre)"
  by (induction pre) auto

lemma LastIndexByte_last: "c \<notin> set post \<Longrightarrow> LastIndexByte (pre @ c # post) c = int (length pre)"
  by (induction pre) (auto simp: LastIndexByte_none Let_def)

lemma split_none:
  assumes "CHR ''_'' \<notin> set s"
  shows "splitPrefixID s = ([], [], s)"
  using assms by (simp add: splitPrefixID_def LastIndexByte_none)

lemma split_one:
  assumes "CHR ''_'' \<notin> set raw" and "CHR ''_'' \<notin> set body"
  shows "splitPrefixID (raw @ ''_'' @ body) = ([], raw, body)"
  using assms by (simp add: splitPrefixID_def LastIndexByte_last IndexByte_none)

lemma split_two:
  assumes "CHR ''_'' \<notin> set env" and "CHR ''_'' \<notin> set body"
  shows "splitPrefixID (env @ ''_'' @ res @ ''_'' @ body) = (env, res, body)"
proof -
  have l: "LastIndexByte (env @ ''_'' @ res @ ''_'' @ body) (CHR ''_'') = int (length (env @ ''_'' @ res))"
    using LastIndexByte_last [of "CHR ''_''" body "env @ ''_'' @ res"] assms(2) by simp
  have t: "take (length (env @ ''_'' @ res)) (env @ ''_'' @ res @ ''_'' @ body) = env @ ''_'' @ res"
    by simp
  have f: "IndexByte (env @ ''_'' @ res) (CHR ''_'') = int (length env)"
    using IndexByte_first [of "CHR ''_''" env res] assms(1) by simp
  show ?thesis
    unfolding splitPrefixID_def l Let_def
    by (simp only: nat_int t f) simp
qed

lemma Parse_prefix:
  "Environment (fst (Parse s)) = (if fst (splitPrefixID s) = [] then ''prod'' else fst (splitPrefixID s)) \<and>
   Resource (fst (Parse s)) = fst (snd (splitPrefixID s))"
  by (auto simp: Parse_def Let_def zeroID_def Production_def
      split: prod.splits sum.splits error.splits)

text \<open>
  Claim C4, as the code has it. \<open>splitPrefixID\<close> cuts the text at its last underscore
  into raw prefix and body. A text without underscore is all body, with empty environment
  and resource. A raw prefix without underscore is the resource, with empty environment.
  A raw prefix with an underscore is cut at its first one into environment and resource
  (the resource may hold further underscores). \<open>Parse\<close> takes the resource as it is and
  replaces an empty environment by \<open>prod\<close>, in each of the three cases, and checks the
  length of the body. A single leading underscore before an underscore-free body gives an
  empty resource.
\<close>

theorem Parse_prefix_grammar:
  "(CHR ''_'' \<notin> set s \<longrightarrow> splitPrefixID s = ([], [], s)) \<and>
   (CHR ''_'' \<notin> set raw \<and> CHR ''_'' \<notin> set body \<longrightarrow>
      splitPrefixID (raw @ ''_'' @ body) = ([], raw, body)) \<and>
   (CHR ''_'' \<notin> set env \<and> CHR ''_'' \<notin> set body \<longrightarrow>
      splitPrefixID (env @ ''_'' @ res @ ''_'' @ body) = (env, res, body)) \<and>
   Environment (fst (Parse t)) =
     (if fst (splitPrefixID t) = [] then ''prod'' else fst (splitPrefixID t)) \<and>
   Resource (fst (Parse t)) = fst (snd (splitPrefixID t)) \<and>
   (length (snd (snd (splitPrefixID t))) < 29 \<longleftrightarrow>
      snd (Parse t) = Some (ParseError ''ksuid too short'')) \<and>
   (length (snd (snd (splitPrefixID t))) > 29 \<longleftrightarrow>
      snd (Parse t) = Some (ParseError ''ksuid too long'')) \<and>
   (CHR ''_'' \<notin> set body \<longrightarrow>
      Resource (fst (Parse (''_'' @ body))) = [] \<and>
      Environment (fst (Parse (''_'' @ body))) = ''prod'')"
proof -
  have short: "length (snd (snd (splitPrefixID t))) < 29 \<longleftrightarrow>
      snd (Parse t) = Some (ParseError ''ksuid too short'')"
    by (auto simp: Parse_def Let_def encodedLen_def ParseInstanceID_def ParseHardwareID_def
        ParseDockerID_def ParseRandomID_def split: prod.splits sum.splits error.splits if_splits)
  have long: "length (snd (snd (splitPrefixID t))) > 29 \<longleftrightarrow>
      snd (Parse t) = Some (ParseError ''ksuid too long'')"
    by (auto simp: Parse_def Let_def encodedLen_def ParseInstanceID_def ParseHardwareID_def
        ParseDockerID_def ParseRandomID_def split: prod.splits sum.splits error.splits if_splits)
  have lead: "Resource (fst (Parse (''_'' @ body))) = [] \<and>
      Environment (fst (Parse (''_'' @ body))) = ''prod''" if "CHR ''_'' \<notin> set body"
    using split_one [of "[]" body] that Parse_prefix [of "''_'' @ body"] by simp
  from split_none split_one split_two Parse_prefix short long lead show ?thesis by blast
qed

theorem Parse_prefix_grammar_witness:
  "splitPrefixID ''000000BPG6Lks9tQoAiJYrBRSXPX6'' = ([], [], ''000000BPG6Lks9tQoAiJYrBRSXPX6'') \<and>
   splitPrefixID ''user_000000BPG6Lks9tQoAiJYrBRSXPX6'' = ([], ''user'', ''000000BPG6Lks9tQoAiJYrBRSXPX6'') \<and>
   splitPrefixID ''test_user_000000BPG6Lks9tQoAiJYrBRSXPX6''
     = (''test'', ''user'', ''000000BPG6Lks9tQoAiJYrBRSXPX6'') \<and>
   Environment (fst (Parse ''user_000000BPG6Lks9tQoAiJYrBRSXPX6'')) = ''prod'' \<and>
   Resource (fst (Parse ''user_000000BPG6Lks9tQoAiJYrBRSXPX6'')) = ''user'' \<and>
   Resource (fst (Parse ''_000000BPG6Lks9tQoAiJYrBRSXPX6'')) = [] \<and>
   Environment (fst (Parse ''_000000BPG6Lks9tQoAiJYrBRSXPX6'')) = ''prod'' \<and>
   snd (Parse ''user_'') = Some (ParseError ''ksuid too short'')"
proof -
  have b: "CHR ''_'' \<notin> set ''000000BPG6Lks9tQoAiJYrBRSXPX6''" by simp
  have u: "CHR ''_'' \<notin> set ''user''" and e: "CHR ''_'' \<notin> set ''test''" by simp_all
  have s1: "splitPrefixID ''user_'' = ([], ''user'', [])"
    by (simp add: splitPrefixID_def)
  show ?thesis
    using b u e
      Parse_prefix_grammar [of "''000000BPG6Lks9tQoAiJYrBRSXPX6''" "''user''"
        "''000000BPG6Lks9tQoAiJYrBRSXPX6''" "''test''" "''user''" "''user_000000BPG6Lks9tQoAiJYrBRSXPX6''"]
      Parse_prefix_grammar [of "''000000BPG6Lks9tQoAiJYrBRSXPX6''" "''user''"
        "''000000BPG6Lks9tQoAiJYrBRSXPX6''" "''test''" "''user''" "''user_''"]
    by (simp add: s1)
qed

text \<open>
  The claim as stated fails on an input that begins with an underscore and holds another
  one: the text between the first and the last underscore is the resource. And for a text
  without underscore \<open>Parse\<close> reports the environment \<open>prod\<close>, not an empty one.
\<close>

theorem Parse_leading_underscore_counterexample:
  "splitPrefixID ''_a_000000BPG6Lks9tQoAiJYrBRSXPX6'' = ([], ''a'', ''000000BPG6Lks9tQoAiJYrBRSXPX6'') \<and>
   Parse ''_a_000000BPG6Lks9tQoAiJYrBRSXPX6'' = (test_id ''prod'' ''a'', None) \<and>
   Resource (test_id ''prod'' ''a'') = ''a'' \<and>
   Environment (fst (Parse ''000000BPG6Lks9tQoAiJYrBRSXPX6'')) = ''prod''"
proof -
  have 1: "splitPrefixID ''_a_000000BPG6Lks9tQoAiJYrBRSXPX6'' = ([], ''a'', ''000000BPG6Lks9tQoAiJYrBRSXPX6'')"
    by (simp add: splitPrefixID_def)
  have 2: "Parse ''_a_000000BPG6Lks9tQoAiJYrBRSXPX6'' = (test_id ''prod'' ''a'', None)"
    unfolding Parse_def 1
    by (simp add: test_decode encodedLen_def zeroID_def Production_def
      ParseInstanceID_def ParseHardwareID_def Uint64_def Uint32_def Uint16_def time_Unix_def Time_UTC_def
      test_id_def test_instance_def test_time_def)
  show ?thesis using 1 2 test_parse_bare by (simp add: test_id_def)
qed

section \<open>Timestamps of constructed identifiers\<close>

text \<open>
  Claim C7, as the code has it. An identifier that \<open>Parse\<close> returns without error carries
  \<open>time.Unix(sec, 0).UTC()\<close> for the seconds in the first eight bytes of the decoded
  payload: whole seconds since the Unix epoch, in UTC. An identifier that a node generates
  carries the node's recorded time, which is in UTC and is either the zero time or one of
  the clock readings handed to the node, converted to UTC with its nanoseconds kept:
  \<open>Generate\<close> does not cut the reading to the second.
\<close>

theorem constructed_timestamps:
  "(Parse s = (a, None) \<longrightarrow>
      (\<exists>dst. fastDecodeBase62 (replicate decodedLen 0) (snd (snd (splitPrefixID s))) = Inr dst \<and>
             Timestamp a = \<lparr>sec = sint (Uint64 (take 8 dst)), nsec = 0, loc = UTC\<rparr>)) \<and>
   (Generate_all (NewNode environment instanceID) calls = (ids, n) \<and> b \<in> set ids \<longrightarrow>
      loc (Timestamp b) = UTC \<and>
      (Timestamp b = zeroTime \<or> (\<exists>c \<in> set calls. Timestamp b = Time_UTC (snd c))))"
proof -
  let ?P = "\<lambda>t. loc t = UTC \<and> (t = zeroTime \<or> (\<exists>c \<in> set calls. t = Time_UTC (snd c)))"
  have "?P (Timestamp b)"
    if g: "Generate_all (NewNode environment instanceID) calls = (ids, n)" and b: "b \<in> set ids"
  proof -
    have 0: "?P (ts (NewNode environment instanceID))"
      by (simp add: NewNode_def zeroTime_def)
    have 1: "\<And>c. c \<in> set calls \<Longrightarrow> ?P (Time_UTC (snd c))"
      by (auto simp: Time_UTC_def)
    from Generate_all_ts [of _ _ _ _ ?P, OF g 0 1] b show ?thesis by blast
  qed
  with Parse_ok_timestamp show ?thesis by blast
qed

theorem constructed_timestamps_witness:
  "Parse ''user_000000BPG6Lks9tQoAiJYrBRSXPX6'' = (test_id ''prod'' ''user'', None) \<and>
   nsec (Timestamp (test_id ''prod'' ''user'')) = 0 \<and>
   loc (Timestamp (test_id ''prod'' ''user'')) = UTC \<and>
   Generate_all (NewNode ''prod'' (Some test_instance))
      [(''user'', \<lparr>sec = 1522947222, nsec = 500000000, loc = Local\<rparr>)]
     = ([\<lparr>Environment = ''prod'', Resource = ''user'',
          Timestamp = \<lparr>sec = 1522947222, nsec = 500000000, loc = UTC\<rparr>,
          InstanceID = Some test_instance, SequenceID = 0\<rparr>],
        \<lparr>node_Environment = ''prod'', node_InstanceID = Some test_instance,
          ts = \<lparr>sec = 1522947222, nsec = 500000000, loc = UTC\<rparr>, seq = 0\<rparr>) \<and>
   loc \<lparr>sec = 1522947222, nsec = 500000000, loc = UTC\<rparr> = UTC"
proof -
  let ?g = "\<lparr>Environment = ''prod'', Resource = ''user'',
          Timestamp = \<lparr>sec = 1522947222, nsec = 500000000, loc = UTC\<rparr>,
          InstanceID = Some test_instance, SequenceID = 0\<rparr>"
  let ?n = "\<lparr>node_Environment = ''prod'', node_InstanceID = Some test_instance,
          ts = \<lparr>sec = 1522947222, nsec = 500000000, loc = UTC\<rparr>, seq = 0\<rparr>"
  let ?calls = "[(''user'', \<lparr>sec = 1522947222, nsec = 500000000, loc = Local\<rparr>)]"
  have g: "Generate_all (NewNode ''prod'' (Some test_instance)) ?calls = ([?g], ?n)"
    by (simp add: Generate_def NewNode_def zeroTime_def Time_UTC_def Time_Sub_def Second_def Let_def)
  have m: "?g \<in> set [?g]" by simp
  show ?thesis
    using test_parse g m
      constructed_timestamps [of "''user_000000BPG6Lks9tQoAiJYrBRSXPX6''" "test_id ''prod'' ''user''"
        "''prod''" "Some test_instance" ?calls "[?g]" ?n ?g]
    by (simp add: test_id_def test_time_def)
qed

text \<open>The claim as stated fails for \<open>Generate\<close>: a clock reading of half a second past
  the second gives an identifier whose timestamp has that half second.\<close>

theorem Generate_subsecond_counterexample:
  "Timestamp (fst (Generate (NewNode ''prod'' (Some test_instance)) ''user''
      \<lparr>sec = 1522947222, nsec = 500000000, loc = Local\<rparr>))
     = \<lparr>sec = 1522947222, nsec = 500000000, loc = UTC\<rparr>"
  by (simp add: Generate_def NewNode_def zeroTime_def Time_UTC_def Time_Sub_def Second_def Let_def)

section \<open>Base-62 numerals and big-endian bytes\<close>

lemma alphabet_values_list:
  "map (\<lambda>c. unat (base62Value c)) base62Characters = [0..<62]"
  by (simp add: base62Characters_def base62Value_def offsetUppercase_def offsetLowercase_def upt_rec)

lemma alphabet_value:
  assumes "d < 62"
  shows "unat (base62Value (base62Characters ! d)) = d"
proof -
  have l: "length base62Characters = 62" by (simp add: base62Characters_def)
  have "map (\<lambda>c. unat (base62Value c)) base62Characters ! d = [0..<62] ! d"
    by (simp only: alphabet_values_list)
  then show ?thesis using assms l by simp
qed

lemma alphabet_chars:
  assumes "c \<in> set base62Characters"
  shows "unat (base62Value c) < 62 \<and> base62Characters ! unat (base62Value c) = c"
  using assms unfolding base62Characters_def
  by (auto simp: base62Value_def offsetUppercase_def offsetLowercase_def)

lemma length_digits62: "length (digits62 k n) = k"
  by (induction k arbitrary: n) simp_all

lemma digits62_bound: "d \<in> set (digits62 k n) \<Longrightarrow> d < 62"
  by (induction k arbitrary: n) auto

lemma digits62_value: "foldl (\<lambda>a d. a * 62 + d) 0 (digits62 k n) = n mod 62 ^ k"
proof (induction k arbitrary: n)
  case 0
  then show ?case by simp
next
  case (Suc k)
  have "n mod (62 * 62 ^ k) = 62 * (n div 62 mod 62 ^ k) + n mod 62"
    by (rule mod_mult2_eq)
  with Suc show ?case by simp
qed

lemma digits62_of_value:
  assumes "\<forall>d \<in> set ds. d < 62"
  shows "digits62 (length ds) (foldl (\<lambda>a d. a * 62 + d) 0 ds) = ds"
  using assms by (induction ds rule: rev_induct) simp_all

lemma digits_val_map:
  "digits_val (map f xs) = foldl (\<lambda>a d. a * 62 + d) 0 (map (\<lambda>x. unat (f x)) xs)"
  unfolding digits_val_def by (induction xs rule: rev_induct) simp_all

lemma base62_number_numeral62:
  "base62_number (numeral62 k n) = n mod 62 ^ k"
proof -
  have "map (\<lambda>x. unat (base62Value x)) (numeral62 k n) = digits62 k n"
    unfolding numeral62_def using digits62_bound [of _ k n]
    by (simp add: map_idI alphabet_value)
  then show ?thesis
    by (simp add: base62_number_def digits_val_map digits62_value)
qed

lemma numeral62_base62_number:
  assumes "set s \<subseteq> set base62Characters"
  shows "numeral62 (length s) (base62_number s) = s"
proof -
  let ?ds = "map (\<lambda>x. unat (base62Value x)) s"
  have b: "\<forall>d \<in> set ?ds. d < 62" using assms alphabet_chars by auto
  have "digits62 (length ?ds) (foldl (\<lambda>a d. a * 62 + d) 0 ?ds) = ?ds"
    using b by (rule digits62_of_value)
  then have "digits62 (length s) (base62_number s) = ?ds"
    by (simp add: base62_number_def digits_val_map)
  then have "numeral62 (length s) (base62_number s) = map (\<lambda>x. base62Characters ! unat (base62Value x)) s"
    by (simp add: numeral62_def)
  also have "\<dots> = s" using assms alphabet_chars by (simp add: map_idI subset_iff)
  finally show ?thesis .
qed

lemma numeral62_text:
  shows "set (numeral62 k n) \<subseteq> set base62Characters" and "length (numeral62 k n) = k"
proof -
  have l: "length base62Characters = 62" by (simp add: base62Characters_def)
  show "set (numeral62 k n) \<subseteq> set base62Characters"
    unfolding numeral62_def using digits62_bound [of _ k n] l by auto
  show "length (numeral62 k n) = k" by (simp add: numeral62_def length_digits62)
qed

lemma be_val_be_bytes: "be_val (be_bytes k n) = n mod 256 ^ k"
proof (induction k arbitrary: n)
  case 0
  then show ?case by (simp add: be_val_def)
next
  case (Suc k)
  have m: "n mod (256 * 256 ^ k) = 256 * (n div 256 mod 256 ^ k) + n mod 256"
    by (rule mod_mult2_eq)
  have u: "unat (of_nat (n mod 256) :: byte) = n mod 256"
    by (simp add: unat_of_nat)
  have "be_val (be_bytes (Suc k) n) = be_val (be_bytes k (n div 256)) * 256 + n mod 256"
    by (simp add: be_val_append u) (simp add: be_val_def u)
  with Suc m show ?case by simp
qed

lemma be_val_bound: "be_val b < 256 ^ length b"
proof (induction b rule: rev_induct)
  case Nil
  then show ?case by (simp add: be_val_def)
next
  case (snoc x xs)
  have x: "unat x < 256" by (rule byte_bound)
  have "be_val (xs @ [x]) = be_val xs * 256 + unat x"
    by (simp add: be_val_append) (simp add: be_val_def)
  moreover have "be_val xs * 256 + unat x < 256 ^ length xs * 256"
  proof -
    have "Suc (be_val xs) \<le> 256 ^ length xs" using snoc by simp
    then have "Suc (be_val xs) * 256 \<le> 256 ^ length xs * 256" by (rule mult_le_mono1)
    with x show ?thesis by simp
  qed
  ultimately show ?case by simp
qed

section \<open>The codec's round trip\<close>

lemma z_digits:
  "map base62Value ''zzzzzzzzzzzzzzzzzzzzzzzzzzzzz'' =
     [61,61,61,61,61,61,61,61,61,61,61,61,61,61,61,61,61,61,61,61,61,61,61,61,61,61,61,61,61]"
  by (simp add: base62Value_def offsetUppercase_def offsetLowercase_def)

lemma z_number:
  "base62_number ''zzzzzzzzzzzzzzzzzzzzzzzzzzzzz'' = 9535840876845151830062945032172233938785425688625151"
  unfolding base62_number_def z_digits by (simp add: digits_val_def)

lemma p160_digits:
  "map base62Value ''00aWgEPTl1tmebfsQzFP4bxwgy80W'' =
     [0, 0, 36, 32, 42, 14, 25, 29, 47, 1, 55, 48, 40, 37, 41, 54, 26, 61, 15, 25, 4, 37, 59, 58, 42, 60, 8, 0, 32]"
  by (simp add: base62Value_def offsetUppercase_def offsetLowercase_def)

lemma p160_number: "base62_number ''00aWgEPTl1tmebfsQzFP4bxwgy80W'' = 2 ^ 160"
  unfolding base62_number_def p160_digits by (simp add: digits_val_def)

lemma decode_numeral62:
  assumes l: "length b = 21" and z: "b ! 0 = 0"
  shows "fastDecodeBase62 (replicate decodedLen 0) (numeral62 29 (be_val b)) = Inr b"
proof -
  obtain b1 where b: "b = 0 # b1" and l1: "length b1 = 20"
    using l z by (cases b) auto
  have "be_val b = be_val b1"
    using be_val_replicate_0 [of 1 b1] by (simp add: b)
  moreover have "be_val b1 < 256 ^ 20" using be_val_bound [of b1] by (simp add: l1)
  ultimately have n: "be_val b < 2 ^ 160" by simp
  then have "be_val b < 62 ^ 29" by simp
  then have num: "base62_number (numeral62 29 (be_val b)) = be_val b"
    by (simp add: base62_number_numeral62)
  have "fastDecodeBase62 (replicate decodedLen 0) (numeral62 29 (be_val b))
          = Inr (be_bytes decodedLen (be_val b))"
  proof (rule decode_at)
    show "length (numeral62 29 (be_val b)) = encodedLen"
      by (simp add: numeral62_text encodedLen_def)
    show "base62_number (numeral62 29 (be_val b)) = be_val b" by (rule num)
    show "be_val b < 2 ^ 160" by (rule n)
  qed
  also have "be_bytes decodedLen (be_val b) = b"
    using be_bytes_be_val [of b] by (simp add: l decodedLen_def)
  finally show ?thesis .
qed

text \<open>
  Claim C1, as the code has it, against the encoder of the spec (\<open>Encode\<close>, the
  29-digit base-62 numeral of the payload's number). Every 21-byte payload whose first
  byte is 0 is what the decoder returns for its encoding, and every text of 29 base-62
  characters that the decoder accepts is the encoding of the bytes it returns. The
  encoding of any payload is a text of 29 base-62 characters.
\<close>

theorem codec_roundtrip:
  "(length b = 21 \<and> b ! 0 = 0 \<longrightarrow>
      fastDecodeBase62 (replicate decodedLen 0) (Encode b) = Inr b) \<and>
   (base62_text s \<and> fastDecodeBase62 (replicate decodedLen 0) s = Inr b' \<longrightarrow> Encode b' = s) \<and>
   base62_text (Encode b)"
proof -
  have valid: "base62_text (Encode b)"
    by (simp add: base62_text_def Encode_def numeral62_text)
  have dec: "fastDecodeBase62 (replicate decodedLen 0) (Encode b) = Inr b"
    if l: "length b = 21" and z: "b ! 0 = 0"
    using decode_numeral62 [OF l z] by (simp add: Encode_def encodedLen_def)
  have enc: "Encode b' = s"
    if t: "base62_text s" and d: "fastDecodeBase62 (replicate decodedLen 0) s = Inr b'"
  proof -
    have len: "length s = encodedLen" and chars: "set s \<subseteq> set base62Characters"
      using t by (simp_all add: base62_text_def)
    have spec: "fastDecodeBase62 (replicate decodedLen 0) s =
           (if base62_number s < 2 ^ 160 then Inr (be_bytes decodedLen (base62_number s))
            else Inl (ParseError ''output buffer too short''))"
      by (rule fastDecodeBase62_spec) (simp_all add: len)
    with d have n: "base62_number s < 2 ^ 160" and b': "b' = be_bytes decodedLen (base62_number s)"
      by (auto split: if_splits)
    have "be_val b' = base62_number s mod 256 ^ 21"
      by (simp add: b' be_val_be_bytes decodedLen_def)
    also have "\<dots> = base62_number s" using n by simp
    finally have "Encode b' = numeral62 (length s) (base62_number s)"
      by (simp add: Encode_def len)
    with chars show ?thesis by (simp add: numeral62_base62_number)
  qed
  from valid dec enc show ?thesis by blast
qed

theorem codec_roundtrip_witness:
  "length [0, 0, 0, 0, 90, 198, 84, 150, 72, 140, 133, 144, 95, 68, 202, 128, 217, 0, 0, 0, 0 :: byte] = 21 \<and>
   Encode [0, 0, 0, 0, 90, 198, 84, 150, 72, 140, 133, 144, 95, 68, 202, 128, 217, 0, 0, 0, 0]
     = ''000000BPG6Lks9tQoAiJYrBRSXPX6'' \<and>
   base62_text ''000000BPG6Lks9tQoAiJYrBRSXPX6'' \<and>
   fastDecodeBase62 (replicate decodedLen 0) ''000000BPG6Lks9tQoAiJYrBRSXPX6''
     = Inr [0, 0, 0, 0, 90, 198, 84, 150, 72, 140, 133, 144, 95, 68, 202, 128, 217, 0, 0, 0, 0]"
proof -
  let ?b = "[0, 0, 0, 0, 90, 198, 84, 150, 72, 140, 133, 144, 95, 68, 202, 128, 217, 0, 0, 0, 0 :: byte]"
  have l: "length ?b = 21 \<and> ?b ! 0 = 0" by simp
  show ?thesis
    using l codec_roundtrip [of ?b "''000000BPG6Lks9tQoAiJYrBRSXPX6''" ?b]
    by (simp add: test_encoding)
qed

text \<open>
  The claim as stated fails for its second half: a text of 29 base-62 characters can hold a
  number that 21 bytes cannot. The largest one, 29 times \<open>z\<close>, is \<open>62^29 - 1\<close>, above
  \<open>2^168\<close>; the decoder refuses it, so there is nothing to encode back.
\<close>

theorem decode_out_of_range_counterexample:
  "base62_text ''zzzzzzzzzzzzzzzzzzzzzzzzzzzzz'' \<and>
   fastDecodeBase62 (replicate decodedLen 0) ''zzzzzzzzzzzzzzzzzzzzzzzzzzzzz''
     = Inl (ParseError ''output buffer too short'')"
proof -
  have "fastDecodeBase62 (replicate decodedLen 0) ''zzzzzzzzzzzzzzzzzzzzzzzzzzzzz'' =
      (if base62_number ''zzzzzzzzzzzzzzzzzzzzzzzzzzzzz'' < 2 ^ 160
       then Inr (be_bytes decodedLen (base62_number ''zzzzzzzzzzzzzzzzzzzzzzzzzzzzz''))
       else Inl (ParseError ''output buffer too short''))"
    by (rule fastDecodeBase62_spec) (simp_all add: encodedLen_def)
  then show ?thesis
    unfolding z_number by (simp add: base62_text_def encodedLen_def base62Characters_def)
qed

section \<open>The decoder's overflow check\<close>

text \<open>
  Claim C5 says the decoder fails exactly when the number needs more than 21 bytes. The
  decoder writes its output in chunks of four bytes and fails when fewer than four remain,
  so with the 21-byte buffer that \<open>Parse\<close> gives it the first byte is never written and
  every number from \<open>2^160\<close> on is refused as "output buffer too short", although the
  numbers below \<open>2^168\<close> fit the buffer (\<open>fastDecodeBase62_spec\<close> above is the exact
  condition, for every 29-character input, whatever its characters). The text below is the
  29-digit numeral of \<open>2^160\<close>, the number of the 21 bytes \<open>01 00 ... 00\<close>.
\<close>

theorem decoder_rejects_21_byte_number:
  "base62_text ''00aWgEPTl1tmebfsQzFP4bxwgy80W'' \<and>
   base62_number ''00aWgEPTl1tmebfsQzFP4bxwgy80W'' = 2 ^ 160 \<and>
   be_val (1 # replicate 20 0) = 2 ^ 160 \<and> length (1 # replicate 20 (0 :: byte)) = 21 \<and>
   fastDecodeBase62 (replicate decodedLen 0) ''00aWgEPTl1tmebfsQzFP4bxwgy80W''
     = Inl (ParseError ''output buffer too short'') \<and>
   snd (Parse ''00aWgEPTl1tmebfsQzFP4bxwgy80W'')
     = Some (ParseError ''invalid base62: output buffer too short'')"
proof -
  have d: "fastDecodeBase62 (replicate decodedLen 0) ''00aWgEPTl1tmebfsQzFP4bxwgy80W''
     = Inl (ParseError ''output buffer too short'')"
    using fastDecodeBase62_spec [of "replicate decodedLen 0" "''00aWgEPTl1tmebfsQzFP4bxwgy80W''"]
    by (simp add: encodedLen_def p160_number)
  have v: "be_val (1 # replicate 20 0) = 2 ^ 160"
    using be_val_append [of "[1]" "replicate 20 0"] be_val_replicate_0 [of 20 "[]"]
    by (simp add: be_val_def)
  have p: "snd (Parse ''00aWgEPTl1tmebfsQzFP4bxwgy80W'')
     = Some (ParseError ''invalid base62: output buffer too short'')"
    by (simp add: Parse_def splitPrefixID_def d encodedLen_def)
  show ?thesis
    using d v p by (simp add: p160_number base62_text_def encodedLen_def base62Characters_def)
qed

section \<open>Reading back what was written\<close>

lemma Uint16_be16: "Uint16 (be16 v) = v"
proof (rule bit_word_eqI)
  fix n assume "n < LENGTH(16)"
  then consider "n < 8" | "8 \<le> n" "n < 16" by fastforce
  then show "bit (Uint16 (be16 v)) n \<longleftrightarrow> bit v n"
    by cases (auto simp: Uint16_def be16_def bit_simps)
qed

lemma Uint32_be32: "Uint32 (be32 v) = v"
proof (rule bit_word_eqI)
  fix n assume "n < LENGTH(32)"
  then consider "n < 8" | "8 \<le> n" "n < 16" | "16 \<le> n" "n < 24" | "24 \<le> n" "n < 32"
    by fastforce
  then show "bit (Uint32 (be32 v)) n \<longleftrightarrow> bit v n"
    by cases (auto simp: Uint32_def be32_def bit_simps)
qed

lemma Uint64_be64: "Uint64 (be64 v) = v"
proof (rule bit_word_eqI)
  fix n assume "n < LENGTH(64)"
  then consider "n < 8" | "8 \<le> n" "n < 16" | "16 \<le> n" "n < 24" | "24 \<le> n" "n < 32"
    | "32 \<le> n" "n < 40" | "40 \<le> n" "n < 48" | "48 \<le> n" "n < 56" | "56 \<le> n" "n < 64"
    by fastforce
  then show "bit (Uint64 (be64 v)) n \<longleftrightarrow> bit v n"
    by cases (auto simp: Uint64_def be64_def bit_simps)
qed

lemma unix_small:
  fixes s :: int
  assumes "0 \<le> s" and "s < 2 ^ 56"
  shows "sint (word_of_int s :: 64 word) = s" and "ucast (drop_bit 56 (word_of_int s :: 64 word)) = (0 :: byte)"
proof -
  show "sint (word_of_int s :: 64 word) = s"
    using assms by (simp add: sint_sbintrunc' signed_take_bit_int_eq_self)
  have u: "unat (word_of_int s :: 64 word) = nat s"
    using assms by (simp add: unat_eq_nat_uint take_bit_int_eq_self uint_word_of_int_eq)
  have "nat s < 2 ^ 56" using assms by (simp add: nat_less_iff)
  then have "unat (drop_bit 56 (word_of_int s :: 64 word)) = 0"
    unfolding unat_drop_bit_eq u by (simp add: drop_bit_eq_div)
  then have "drop_bit 56 (word_of_int s :: 64 word) = 0" by (simp add: unat_eq_0)
  then show "ucast (drop_bit 56 (word_of_int s :: 64 word)) = (0 :: byte)" by simp
qed

end
